theory Spec2Isabelle
  imports
    Main
    "HOL-Library.Word"
    "HOL-Library.Signed_Division"
    "HOL-Library.Multiset"
begin

unbundle bit_operations_syntax

section \<open>Warp-level tensor-op matrix multiply-accumulate (mma_tensor_op.h)\<close>

text \<open>
  The development embeds \<^verbatim>\<open>include/cutlass/gemm/warp/mma_tensor_op.h\<close>:
  the three specialisations of \<^verbatim>\<open>detail::ConvertAndPack\<close>, the compile-time
  constant \<^verbatim>\<open>MmaIterations\<close> with its \<^verbatim>\<open>static_assert\<close>, and the two
  methods \<^verbatim>\<open>operator()\<close> and \<^verbatim>\<open>transform\<close> of \<^verbatim>\<open>MmaTensorOp\<close>.

  Everything that can go wrong is a value. A configuration the compiler rejects yields
  \<open>StaticAssertFailed\<close> (the \<^verbatim>\<open>static_assert\<close>) or \<open>IllFormedConstant\<close> (a division by
  zero inside a constant expression). A run that reads or writes outside a fragment,
  divides by zero or overflows a signed \<^verbatim>\<open>int\<close> has no defined result in C++ and
  yields \<open>UndefinedBehavior\<close>.
\<close>

datatype error = StaticAssertFailed | IllFormedConstant | UndefinedBehavior

subsection \<open>Counted loops\<close>

text \<open>
  \<^verbatim>\<open>for (int i = 0; i < K; ++i) body\<close> runs the body for each \<open>i\<close> of the index list in
  turn and threads the state through; the first failure ends the run.
\<close>

fun for_each :: "'i list \<Rightarrow> ('i \<Rightarrow> 's \<Rightarrow> error + 's) \<Rightarrow> 's \<Rightarrow> error + 's" where
  "for_each [] body s = Inr s"
| "for_each (i # is) body s =
     (case body i s of Inl e \<Rightarrow> Inl e | Inr s' \<Rightarrow> for_each is body s')"

subsection \<open>Operand conversion: \<^verbatim>\<open>detail::ConvertAndPack\<close>\<close>

text \<open>
  Element types are compile-time tags; the specialisation of \<^verbatim>\<open>ConvertAndPack\<close> is
  chosen by comparing them. Element values live in one value type \<open>'v\<close>. The rounding
  style \<^verbatim>\<open>FloatRoundStyle\<close> is a type parameter \<open>'r\<close>.
\<close>

datatype numeric_type =
  half_t | bfloat16_t | tfloat32_t | float | double | int8_t | uint8_t | int32_t

text \<open>
  Modelled from the spec: \<^verbatim>\<open>NumericArrayConverter\<close> of
  \<^verbatim>\<open>cutlass/numeric_conversion.h\<close>, which is not among the sources. The spec calls it
  "the numeric library's element-wise rounding conversion from S to T": the scalar
  conversion \<open>cvt T S Round\<close>, a parameter of the model, is applied to each element in place.
\<close>

definition NumericArrayConverter ::
  "(numeric_type \<Rightarrow> numeric_type \<Rightarrow> 'r \<Rightarrow> 'v \<Rightarrow> 'v) \<Rightarrow>
     numeric_type \<Rightarrow> numeric_type \<Rightarrow> 'r \<Rightarrow> 'v list \<Rightarrow> 'v list" where
  "NumericArrayConverter cvt T S Round source = map (cvt T S Round) source"

text \<open>
  Line 93: \<^verbatim>\<open>int idx = (((i << 1) & 2) | ((i >> 1) & 1) | (i & 0xfffffffc));\<close>
  on the 32 bits of an \<^verbatim>\<open>int\<close>. The loop counter is never negative, so the arithmetic
  right shift is a logical one.
\<close>

definition repack_index :: "32 word \<Rightarrow> 32 word" where
  "repack_index i = ((push_bit 1 i AND 2) OR (drop_bit 1 i AND 1) OR (i AND 0xfffffffc))"

text \<open>
  Lines 89 to 95: the loop fills the fresh array \<^verbatim>\<open>tmp\<close> from slot \<open>0\<close> upwards, so
  the write \<^verbatim>\<open>tmp[i] = source[idx]\<close> appends to what is filled so far. \<open>N\<close> is the
  length of \<open>source\<close>. The index \<open>idx\<close> is an \<^verbatim>\<open>int\<close>; reading outside \<open>source\<close> is
  undefined.
\<close>

definition repack_body :: "'v list \<Rightarrow> nat \<Rightarrow> 'v list \<Rightarrow> error + 'v list" where
  "repack_body source i tmp =
     (let idx = sint (repack_index (word_of_nat i))
      in if 0 \<le> idx \<and> idx < int (length source)
         then Inr (tmp @ [source ! nat idx])
         else Inl UndefinedBehavior)"

definition repack :: "'v list \<Rightarrow> error + 'v list" where
  "repack source = for_each [0..<length source] (repack_body source) []"

text \<open>The slot of the source that the loop reads at iteration \<open>i\<close>, as a natural number.\<close>

definition repack_perm :: "nat \<Rightarrow> nat" where
  "repack_perm i = nat (sint (repack_index (word_of_nat i)))"

text \<open>
  The three specialisations, lines 58 to 99. \<^verbatim>\<open>ConvertAndPack<T, T, N, Round>\<close>
  returns its argument; \<^verbatim>\<open>ConvertAndPack<half_t, float, N, Round>\<close> repacks and then
  converts; the primary template converts.
\<close>

definition ConvertAndPack ::
  "(numeric_type \<Rightarrow> numeric_type \<Rightarrow> 'r \<Rightarrow> 'v \<Rightarrow> 'v) \<Rightarrow>
     numeric_type \<Rightarrow> numeric_type \<Rightarrow> 'r \<Rightarrow> 'v list \<Rightarrow> error + 'v list" where
  "ConvertAndPack cvt T S Round source =
     (if T = S then Inr source
      else if T = half_t \<and> S = float then
        (case repack source of
           Inl e \<Rightarrow> Inl e
         | Inr tmp \<Rightarrow> Inr (NumericArrayConverter cvt half_t float Round tmp))
      else Inr (NumericArrayConverter cvt T S Round source))"

subsection \<open>Compile-time configuration of \<^verbatim>\<open>MmaTensorOp\<close>\<close>

text \<open>
  \<^verbatim>\<open>gemm::GemmShape<kM, kN, kK>\<close>, and the template arguments and member constants of
  \<^verbatim>\<open>MmaTensorOp\<close> that the two methods read: the warp-level \<open>Shape\<close>, the shape
  \<^verbatim>\<open>Policy::Operator::Shape\<close> and the element types of the elementary operator, the
  element types of the raw operands, \<^verbatim>\<open>kPartitionsN\<close>, the flag
  \<^verbatim>\<open>AccumulatorsInRowMajor\<close>, and the element counts \<^verbatim>\<open>FragmentB::kElements\<close> and
  \<^verbatim>\<open>MmaOperandB::kElements\<close>, which come from the tile iterator and the elementary
  operator (neither is among the sources) and are therefore parameters.
\<close>

record GemmShape =
  kM :: int
  kN :: int
  kK :: int

record mma_config =
  Shape :: GemmShape
  ElementA :: numeric_type
  ElementB :: numeric_type
  OperatorShape :: GemmShape
  OperatorElementA :: numeric_type
  OperatorElementB :: numeric_type
  kPartitionsN :: int
  AccumulatorsInRowMajor :: bool
  FragmentB_kElements :: int
  MmaOperandB_kElements :: int

text \<open>
  Lines 223 to 234: the \<^verbatim>\<open>static_assert\<close> and \<^verbatim>\<open>MmaIterations\<close>, the pair
  \<open>(kRow, kColumn)\<close>. \<^verbatim>\<open>/\<close> and \<^verbatim>\<open>%\<close> of C++ truncate towards zero
  (\<open>sdiv\<close>, \<open>smod\<close>); a zero divisor inside these constant expressions makes the
  program ill-formed.
\<close>

definition MmaIterations :: "mma_config \<Rightarrow> error + (int \<times> int)" where
  "MmaIterations cfg =
     (if kM (OperatorShape cfg) = 0 \<or> kN (OperatorShape cfg) = 0 then Inl IllFormedConstant
      else if \<not> (kM (Shape cfg) smod kM (OperatorShape cfg) = 0
               \<and> kN (Shape cfg) smod kN (OperatorShape cfg) = 0) then Inl StaticAssertFailed
      else if kPartitionsN cfg = 0 then Inl IllFormedConstant
      else Inr (kM (Shape cfg) sdiv kM (OperatorShape cfg),
                if kN (Shape cfg) sdiv kN (OperatorShape cfg) sdiv kPartitionsN cfg > 0
                then kN (Shape cfg) sdiv kN (OperatorShape cfg) sdiv kPartitionsN cfg
                else 1))"

subsection \<open>The driver: \<^verbatim>\<open>MmaTensorOp::operator()\<close>\<close>

text \<open>
  Run-time \<^verbatim>\<open>int\<close> arithmetic: 32 bits, signed. A product or quotient outside the
  range, and a zero divisor, are undefined. The two element counts are read as
  \<^verbatim>\<open>int\<close> constants, like the partition index they are multiplied with; for a
  partition index that is not negative and a product below \<open>2^31\<close> the value is the same
  if their declared type is an unsigned one.
\<close>

definition in_int32 :: "int \<Rightarrow> bool" where
  "in_int32 x = (- (2 ^ 31) \<le> x \<and> x < 2 ^ 31)"

definition int_mul :: "int \<Rightarrow> int \<Rightarrow> error + int" where
  "int_mul x y = (if in_int32 (x * y) then Inr (x * y) else Inl UndefinedBehavior)"

definition int_div :: "int \<Rightarrow> int \<Rightarrow> error + int" where
  "int_div x y =
     (if y \<noteq> 0 \<and> in_int32 (x sdiv y) then Inr (x sdiv y) else Inl UndefinedBehavior)"

text \<open>
  Line 271:
  \<^verbatim>\<open>n_off = partitionN_idx * FragmentB::kElements / MmaOperandB::kElements / kPartitionsN\<close>,
  evaluated from left to right.
\<close>

definition n_off :: "mma_config \<Rightarrow> int \<Rightarrow> error + int" where
  "n_off cfg partitionN_idx =
     (case int_mul partitionN_idx (FragmentB_kElements cfg) of
        Inl e \<Rightarrow> Inl e
      | Inr p \<Rightarrow>
         (case int_div p (MmaOperandB_kElements cfg) of
            Inl e \<Rightarrow> Inl e
          | Inr q \<Rightarrow> int_div q (kPartitionsN cfg)))"

text \<open>
  Lines 266 to 268 view each fragment as an array of operands of the elementary operator
  (\<^verbatim>\<open>ptr_A\<close>, \<^verbatim>\<open>ptr_B\<close>, \<^verbatim>\<open>ptr_D\<close>). A fragment is therefore a list of such
  operands: \<open>'a\<close>, \<open>'b\<close> and \<open>'c\<close> stand for \<^verbatim>\<open>MmaOperandA\<close>, \<^verbatim>\<open>MmaOperandB\<close>
  and \<^verbatim>\<open>MmaOperandC\<close>. An index outside the array is undefined. Fragments are
  register arrays of far fewer than \<open>2^31\<close> operands, so an index inside a fragment was
  computed without overflow.

  The elementary operator \<^verbatim>\<open>mma(d, a, b, c)\<close> is external; it stores into \<open>d\<close> a
  value computed from \<open>a\<close>, \<open>b\<close> and \<open>c\<close>, here \<open>mma a b c\<close>. The call
  \<^verbatim>\<open>mma(ptr_D[d], ptr_A[a], ptr_B[b], ptr_D[d])\<close>:
\<close>

definition in_bounds :: "int \<Rightarrow> 'x list \<Rightarrow> bool" where
  "in_bounds i xs = (0 \<le> i \<and> i < int (length xs))"

definition mma_call ::
  "('a \<Rightarrow> 'b \<Rightarrow> 'c \<Rightarrow> 'c) \<Rightarrow> 'a list \<Rightarrow> 'b list \<Rightarrow> int \<Rightarrow> int \<Rightarrow> int \<Rightarrow>
     'c list \<Rightarrow> error + 'c list" where
  "mma_call mma ptr_A ptr_B d a b ptr_D =
     (if in_bounds d ptr_D \<and> in_bounds a ptr_A \<and> in_bounds b ptr_B
      then Inr (ptr_D[nat d := mma (ptr_A ! nat a) (ptr_B ! nat b) (ptr_D ! nat d)])
      else Inl UndefinedBehavior)"

text \<open>Lines 281 to 293: the body of the inner loop, at column \<open>n\<close> and row \<open>m_serpentine\<close>.\<close>

definition mma_body ::
  "bool \<Rightarrow> int \<Rightarrow> int \<Rightarrow> ('a \<Rightarrow> 'b \<Rightarrow> 'c \<Rightarrow> 'c) \<Rightarrow> 'a list \<Rightarrow> 'b list \<Rightarrow> int \<Rightarrow>
     int \<Rightarrow> int \<Rightarrow> 'c list \<Rightarrow> error + 'c list" where
  "mma_body rowmajor kRow kColumn mma ptr_A ptr_B off n m_serpentine ptr_D =
     (if rowmajor then
        mma_call mma ptr_A ptr_B (n + m_serpentine * kColumn) m_serpentine n ptr_D
      else
        mma_call mma ptr_A ptr_B (m_serpentine + (n + off) * kRow) m_serpentine (n + off) ptr_D)"

text \<open>
  The accumulator slot and the \<open>B\<close> operand of that call, read off the two branches
  (lemma \<open>mma_body_indices\<close> below).
\<close>

definition acc_index :: "bool \<Rightarrow> int \<Rightarrow> int \<Rightarrow> int \<Rightarrow> int \<Rightarrow> int \<Rightarrow> int" where
  "acc_index rowmajor kRow kColumn off n m =
     (if rowmajor then n + m * kColumn else m + (n + off) * kRow)"

definition b_index :: "bool \<Rightarrow> int \<Rightarrow> int \<Rightarrow> int" where
  "b_index rowmajor off n = (if rowmajor then n else n + off)"

text \<open>
  Lines 274 to 279: the two loops and the choice of \<^verbatim>\<open>m_serpentine\<close>; \<open>n\<close> is never
  negative, so \<^verbatim>\<open>n % 2\<close> is \<open>n mod 2\<close>. The body is a parameter, so that the same
  loop nest runs the elementary operator (in \<open>MmaTensorOp_call\<close>) and records the order of
  the visits (in \<open>visits\<close>).
\<close>

definition serpentine_loop ::
  "int \<Rightarrow> int \<Rightarrow> (int \<Rightarrow> int \<Rightarrow> 's \<Rightarrow> error + 's) \<Rightarrow> 's \<Rightarrow> error + 's" where
  "serpentine_loop kRow kColumn body s =
     for_each [0..kColumn - 1]
       (\<lambda>n. for_each [0..kRow - 1]
          (\<lambda>m. body n (if n mod 2 \<noteq> 0 then kRow - 1 - m else m))) s"

text \<open>
  Lines 252 to 296, \<^verbatim>\<open>operator()(D, A, B, C, partitionN_idx)\<close>: \<^verbatim>\<open>D = C\<close>, then the
  offset, then the loops. The result is the final \<open>D\<close>. The run of a rejected
  configuration is the rejection.
\<close>

definition MmaTensorOp_call ::
  "mma_config \<Rightarrow> ('a \<Rightarrow> 'b \<Rightarrow> 'c \<Rightarrow> 'c) \<Rightarrow> 'a list \<Rightarrow> 'b list \<Rightarrow> 'c list \<Rightarrow> int \<Rightarrow>
     error + 'c list" where
  "MmaTensorOp_call cfg mma A B C partitionN_idx =
     (case MmaIterations cfg of
        Inl e \<Rightarrow> Inl e
      | Inr (kRow, kColumn) \<Rightarrow>
         (case n_off cfg partitionN_idx of
            Inl e \<Rightarrow> Inl e
          | Inr off \<Rightarrow>
             serpentine_loop kRow kColumn
               (mma_body (AccumulatorsInRowMajor cfg) kRow kColumn mma A B off) C))"

text \<open>The pairs \<open>(m_serpentine, n)\<close> in the order in which the loop nest reaches them.\<close>

definition visits :: "int \<Rightarrow> int \<Rightarrow> error + (int \<times> int) list" where
  "visits kRow kColumn =
     serpentine_loop kRow kColumn (\<lambda>n m_serpentine log. Inr (log @ [(m_serpentine, n)])) []"

subsection \<open>\<^verbatim>\<open>MmaTensorOp::transform\<close>\<close>

text \<open>
  Lines 299 to 334. \<open>pref T S\<close> is \<^verbatim>\<open>PreferredRoundingMode<T, S>::kRound\<close>, a
  parameter. \<^verbatim>\<open>FragmentA::kElements\<close> and \<^verbatim>\<open>FragmentB::kElements\<close> are the lengths
  of \<open>A\<close> and \<open>B\<close>. \<open>A\<close> goes through \<^verbatim>\<open>ConvertAndPack\<close>. \<open>B\<close> is viewed as
  two arrays of \<^verbatim>\<open>FragmentB::kElements / 2\<close> elements, each converted by
  \<^verbatim>\<open>NumericArrayConverter\<close> and stored into the matching half of \<^verbatim>\<open>dst_B\<close>; when
  the count is odd the last slot of \<^verbatim>\<open>dst_B\<close> keeps what it held. The flag
  \<^verbatim>\<open>midway_depstage\<close> is computed and never read.
\<close>

definition MmaTensorOp_transform ::
  "(numeric_type \<Rightarrow> numeric_type \<Rightarrow> 'r \<Rightarrow> 'v \<Rightarrow> 'v) \<Rightarrow> (numeric_type \<Rightarrow> numeric_type \<Rightarrow> 'r) \<Rightarrow>
     mma_config \<Rightarrow> 'v list \<Rightarrow> 'v list \<Rightarrow> 'v list \<Rightarrow> error + ('v list \<times> 'v list)" where
  "MmaTensorOp_transform cvt pref cfg dst_B A B =
     (let kRoundA = pref (OperatorElementA cfg) (ElementA cfg);
          kRoundB = pref (OperatorElementB cfg) (ElementB cfg);
          convert_B = NumericArrayConverter cvt (OperatorElementB cfg) (ElementB cfg) kRoundB;
          half = length B div 2
      in case ConvertAndPack cvt (OperatorElementA cfg) (ElementA cfg) kRoundA A of
           Inl e \<Rightarrow> Inl e
         | Inr dst_A \<Rightarrow>
             Inr (dst_A,
                  convert_B (take half B) @ convert_B (take half (drop half B))
                    @ drop (2 * half) dst_B))"

section \<open>Reference definitions taken from the specification\<close>

text \<open>
  The index formula of the specification, \<open>((i<<1)&2) | ((i>>1)&1) | (i & ~3)\<close>, on
  the integers.
\<close>

definition spec_repack_index :: "int \<Rightarrow> int" where
  "spec_repack_index i = ((push_bit 1 i AND 2) OR (drop_bit 1 i AND 1) OR (i AND NOT 3))"

text \<open>
  The naive loop nest of the specification: the same pairs, every column walked forward.
\<close>

definition naive_loop ::
  "int \<Rightarrow> int \<Rightarrow> (int \<Rightarrow> int \<Rightarrow> 's \<Rightarrow> error + 's) \<Rightarrow> 's \<Rightarrow> error + 's" where
  "naive_loop kRow kColumn body s =
     for_each [0..kColumn - 1] (\<lambda>n. for_each [0..kRow - 1] (\<lambda>m. body n m)) s"

definition naive_call ::
  "mma_config \<Rightarrow> ('a \<Rightarrow> 'b \<Rightarrow> 'c \<Rightarrow> 'c) \<Rightarrow> 'a list \<Rightarrow> 'b list \<Rightarrow> 'c list \<Rightarrow> int \<Rightarrow>
     error + 'c list" where
  "naive_call cfg mma A B C partitionN_idx =
     (case MmaIterations cfg of
        Inl e \<Rightarrow> Inl e
      | Inr (kRow, kColumn) \<Rightarrow>
         (case n_off cfg partitionN_idx of
            Inl e \<Rightarrow> Inl e
          | Inr off \<Rightarrow>
             naive_loop kRow kColumn
               (mma_body (AccumulatorsInRowMajor cfg) kRow kColumn mma A B off) C))"

text \<open>
  The transform of the specification: the conversion rule \<^verbatim>\<open>ConvertAndPack\<close> applied to
  \<open>A\<close> and, independently, to each of the two halves of \<open>B\<close>.
\<close>

definition spec_transform ::
  "(numeric_type \<Rightarrow> numeric_type \<Rightarrow> 'r \<Rightarrow> 'v \<Rightarrow> 'v) \<Rightarrow> (numeric_type \<Rightarrow> numeric_type \<Rightarrow> 'r) \<Rightarrow>
     mma_config \<Rightarrow> 'v list \<Rightarrow> 'v list \<Rightarrow> 'v list \<Rightarrow> error + ('v list \<times> 'v list)" where
  "spec_transform cvt pref cfg dst_B A B =
     (let kRoundA = pref (OperatorElementA cfg) (ElementA cfg);
          kRoundB = pref (OperatorElementB cfg) (ElementB cfg);
          half = length B div 2
      in case ConvertAndPack cvt (OperatorElementA cfg) (ElementA cfg) kRoundA A of
           Inl e \<Rightarrow> Inl e
         | Inr dst_A \<Rightarrow>
            (case ConvertAndPack cvt (OperatorElementB cfg) (ElementB cfg) kRoundB (take half B) of
               Inl e \<Rightarrow> Inl e
             | Inr lo \<Rightarrow>
                (case ConvertAndPack cvt (OperatorElementB cfg) (ElementB cfg) kRoundB
                        (take half (drop half B)) of
                   Inl e \<Rightarrow> Inl e
                 | Inr hi \<Rightarrow> Inr (dst_A, lo @ hi @ drop (2 * half) dst_B))))"

text \<open>
  The output of one run, as the specification's partitioning property reads it: the
  columns of the accumulator tile that the run computed, each a list of \<open>kRow\<close>
  accumulators, read through the addressing of the run itself (\<open>acc_index\<close>).
  Concatenating along \<open>N\<close> appends the columns of the runs in the order of the partition
  indices.
\<close>

definition acc_tile :: "bool \<Rightarrow> int \<Rightarrow> int \<Rightarrow> int \<Rightarrow> 'c list \<Rightarrow> 'c list list" where
  "acc_tile rowmajor kRow kColumn off D =
     map (\<lambda>n. map (\<lambda>m. D ! nat (acc_index rowmajor kRow kColumn off n m)) [0..kRow - 1])
       [0..kColumn - 1]"

definition partition_tile ::
  "mma_config \<Rightarrow> ('a \<Rightarrow> 'b \<Rightarrow> 'c \<Rightarrow> 'c) \<Rightarrow> 'a list \<Rightarrow> 'b list \<Rightarrow> 'c list \<Rightarrow> int \<Rightarrow>
     error + 'c list list" where
  "partition_tile cfg mma A B C partitionN_idx =
     (case MmaIterations cfg of
        Inl e \<Rightarrow> Inl e
      | Inr (kRow, kColumn) \<Rightarrow>
         (case n_off cfg partitionN_idx of
            Inl e \<Rightarrow> Inl e
          | Inr off \<Rightarrow>
             (case MmaTensorOp_call cfg mma A B C partitionN_idx of
                Inl e \<Rightarrow> Inl e
              | Inr D \<Rightarrow> Inr (acc_tile (AccumulatorsInRowMajor cfg) kRow kColumn off D))))"

fun concat_partitions :: "(int \<Rightarrow> error + 'c list list) \<Rightarrow> int list \<Rightarrow> error + 'c list list" where
  "concat_partitions run [] = Inr []"
| "concat_partitions run (p # ps) =
     (case run p of
        Inl e \<Rightarrow> Inl e
      | Inr t \<Rightarrow> (case concat_partitions run ps of Inl e \<Rightarrow> Inl e | Inr ts \<Rightarrow> Inr (t @ ts)))"

section \<open>Notions used in the proofs\<close>

text \<open>Sequencing of two steps that may fail, and steps whose order does not matter.\<close>

definition and_then :: "error + 's \<Rightarrow> ('s \<Rightarrow> error + 't) \<Rightarrow> error + 't" where
  "and_then r f = (case r of Inl e \<Rightarrow> Inl e | Inr s \<Rightarrow> f s)"

definition commute :: "('s \<Rightarrow> error + 's) \<Rightarrow> ('s \<Rightarrow> error + 's) \<Rightarrow> bool" where
  "commute f g = (\<forall>s. and_then (f s) g = and_then (g s) f)"

text \<open>
  The slot of a column-major \<open>r\<close> by \<open>c\<close> grid that holds the tile of slot \<open>j\<close> of the
  row-major grid.
\<close>

definition transpose_slot :: "nat \<Rightarrow> nat \<Rightarrow> nat \<Rightarrow> nat" where
  "transpose_slot r c j = j div c + (j mod c) * r"

section \<open>Identity conversion\<close>

text \<open>
  Claim C6. When the source element type equals the target element type, the conversion
  returns the fragment it was given, whatever its length: the result is the argument
  itself, and it does not depend on the scalar conversion or on the rounding style, so no
  element is converted.
\<close>

theorem ConvertAndPack_identity:
  "ConvertAndPack cvt T T Round x = Inr x"
  by (simp add: ConvertAndPack_def)

section \<open>The repacking permutation\<close>

subsection \<open>Bits of the index\<close>

lemma word_fffffffc: "(0xfffffffc :: 32 word) = NOT 3"
  by simp

lemma bit_word_3: "bit (3 :: 32 word) n \<longleftrightarrow> n < 2"
proof -
  have "(3 :: 32 word) = mask 2" by (simp add: mask_eq_exp_minus_1)
  then show ?thesis by (simp only: bit_mask_iff possible_bit_word) auto
qed

lemma bit_word_fffffffc: "bit (0xfffffffc :: 32 word) n \<longleftrightarrow> 2 \<le> n \<and> n < 32"
  by (simp only: word_fffffffc bit_not_iff bit_word_3 possible_bit_word) auto

lemma bit_word_2: "bit (2 :: 32 word) n \<longleftrightarrow> n = 1"
proof -
  have "(2 :: 32 word) = push_bit 1 1" by simp
  then show ?thesis by (simp only: bit_push_bit_iff bit_1_iff) (auto simp: possible_bit_word)
qed

lemma bit_word_1: "bit (1 :: 32 word) n \<longleftrightarrow> n = 0"
  by (simp add: bit_1_iff)

lemma bit_repack_index:
  "bit (repack_index w) n = (if n = 0 then bit w 1 else if n = 1 then bit w 0 else bit w n)"
  unfolding repack_index_def
  by (simp only: bit_or_iff bit_and_iff bit_push_bit_iff bit_drop_bit_eq bit_word_2 bit_word_1 bit_word_fffffffc)
     (auto simp: possible_bit_word dest: bit_imp_le_length)

lemma repack_index_involution: "repack_index (repack_index w) = w"
  by (rule bit_eqI) (simp add: bit_repack_index)

lemma repack_index_block: "drop_bit 2 (repack_index w) = drop_bit 2 w"
  by (rule bit_eqI) (simp add: bit_repack_index bit_simps)

lemma bit_int3: "bit (3 :: int) n \<longleftrightarrow> n < 2"
proof -
  have h: "(3 :: int) = mask 2" by (simp add: mask_eq_exp_minus_1)
  show ?thesis by (simp only: h bit_mask_iff possible_bit_def) auto
qed

lemma bit_int2: "bit (2 :: int) n \<longleftrightarrow> n = 1"
proof -
  have h: "(2 :: int) = push_bit 1 1" by simp
  show ?thesis by (simp only: h bit_push_bit_iff bit_1_iff) (auto simp: )
qed

lemma bit_spec_repack_index:
  "bit (spec_repack_index k) n = (if n = 0 then bit k 1 else if n = 1 then bit k 0 else bit k n)"
  unfolding spec_repack_index_def
  by (simp only: bit_or_iff bit_and_iff bit_push_bit_iff bit_drop_bit_eq bit_int2 bit_1_iff bit_int3 bit_not_iff)
     (auto simp: )

lemma bit_nat_small: "i < 2 ^ m \<Longrightarrow> m \<le> n \<Longrightarrow> \<not> bit (i::nat) n"
proof -
  assume a: "i < 2 ^ m" "m \<le> n"
  then have "take_bit m i = i" by (simp add: take_bit_nat_eq_self)
  then have "bit i n = bit (take_bit m i) n" by simp
  also have "\<dots> = (n < m \<and> bit i n)" by (simp only: bit_take_bit_iff)
  finally show ?thesis using a by simp
qed

lemma sint_repack_index:
  assumes "i < 2 ^ 31"
  shows "sint (repack_index (word_of_nat i)) = spec_repack_index (int i)"
proof (rule bit_eqI)
  fix n
  have top: "\<And>k. 31 \<le> k \<Longrightarrow> \<not> bit i k" using assms bit_nat_small by blast
  show "bit (sint (repack_index (word_of_nat i))) n = bit (spec_repack_index (int i)) n"
  proof (cases "31 \<le> n")
    case True
    then show ?thesis
      using top[of n] top[of 31]
      by (simp add: bit_sint_iff bit_repack_index bit_spec_repack_index bit_of_nat_iff bit_of_nat_iff_bit possible_bit_word)
  next
    case False
    then show ?thesis
      using top[of 31]
      by (simp add: bit_sint_iff bit_repack_index bit_spec_repack_index bit_of_nat_iff bit_of_nat_iff_bit possible_bit_word)
  qed
qed

lemma spec_repack_index_div4: "spec_repack_index k div 4 = k div 4"
proof -
  have "drop_bit 2 (spec_repack_index k) = drop_bit 2 k"
    by (rule bit_eqI) (simp add: bit_spec_repack_index bit_simps)
  then show ?thesis by (simp add: drop_bit_eq_div)
qed

lemma spec_repack_index_low:
  "spec_repack_index k mod 2 = (k div 2) mod 2" "(spec_repack_index k div 2) mod 2 = k mod 2"
proof -
  have "odd (spec_repack_index k) = odd (k div 2)"
    using bit_spec_repack_index[of k 0] bit_Suc[of k 0] by (simp add: bit_0)
  then show "spec_repack_index k mod 2 = (k div 2) mod 2"
    by presburger
  have "odd (spec_repack_index k div 2) = odd k"
    using bit_spec_repack_index[of k 1] bit_Suc[of "spec_repack_index k" 0] by (simp add: bit_0)
  then show "(spec_repack_index k div 2) mod 2 = k mod 2"
    by presburger
qed

lemma mod4_split: "(x::int) mod 4 = x mod 2 + 2 * ((x div 2) mod 2)"
  using zmod_zmult2_eq [of 2 x 2] by simp

lemma spec_repack_index_mod4:
  "spec_repack_index k mod 4 = 2 * (k mod 2) + (k div 2) mod 2"
  by (simp add: mod4_split [of "spec_repack_index k"] spec_repack_index_low)

lemma spec_repack_index_closed:
  "spec_repack_index k = 4 * (k div 4) + (2 * (k mod 2) + (k div 2) mod 2)"
  using div_mult_mod_eq [of "spec_repack_index k" 4]
  by (simp add: spec_repack_index_div4 spec_repack_index_mod4)

lemma spec_repack_index_range:
  assumes "4 dvd N" "i < N"
  shows "0 \<le> spec_repack_index (int i) \<and> spec_repack_index (int i) < int N"
proof -
  obtain q where q: "N = 4 * q" using assms(1) by (auto elim: dvdE)
  have "int i div 4 < int q" using assms(2) q by simp
  then have "4 * (int i div 4) + 4 \<le> int N" using q by simp
  moreover have "0 \<le> int i div 4" by simp
  moreover have "0 \<le> int i mod 2" "int i mod 2 < 2" "0 \<le> (int i div 2) mod 2" "(int i div 2) mod 2 < 2"
    by simp_all
  ultimately show ?thesis
    unfolding spec_repack_index_closed [of "int i"] by linarith
qed

lemma spec_repack_index_involution: "spec_repack_index (spec_repack_index k) = k"
  by (rule bit_eqI) (simp add: bit_spec_repack_index)

lemma for_each_repack_body:
  assumes "\<And>i. i \<in> set js \<Longrightarrow> i < length source" "4 dvd length source" "length source < 2 ^ 31"
  shows "for_each js (repack_body source) tmp
           = Inr (tmp @ map (\<lambda>i. source ! nat (spec_repack_index (int i))) js)"
  using assms(1)
proof (induction js arbitrary: tmp)
  case Nil
  then show ?case by simp
next
  case (Cons j js)
  have j: "j < length source" using Cons.prems by simp
  then have "j < 2 ^ 31" using assms(3) by simp
  then have s: "sint (repack_index (word_of_nat j)) = spec_repack_index (int j)"
    by (rule sint_repack_index)
  have step: "repack_body source j tmp = Inr (tmp @ [source ! nat (spec_repack_index (int j))])"
    using spec_repack_index_range [OF assms(2) j] by (simp add: repack_body_def s)
  show ?case using Cons.IH [of "tmp @ [source ! nat (spec_repack_index (int j))]"] Cons.prems
    by (simp add: step)
qed

lemma repack_eq:
  assumes "4 dvd length source" "length source < 2 ^ 31"
  shows "repack source = Inr (map (\<lambda>i. source ! nat (spec_repack_index (int i))) [0..<length source])"
  unfolding repack_def using for_each_repack_body [of "[0..<length source]" source "[]"] assms
  by simp

text \<open>
  Claim C4. On the float-to-half path, for every fragment whose length is a multiple of
  4 (and, being an \<^verbatim>\<open>int\<close>, below \<open>2^31\<close>), the conversion returns a fragment of
  the same length whose element \<open>i\<close> is the converted value of the source element at
  \<open>((i<<1)&2) | ((i>>1)&1) | (i & ~3)\<close>: the permutation moves elements and leaves their
  values to the conversion.
\<close>

theorem ConvertAndPack_float_to_half:
  assumes "4 dvd length source" "length source < 2 ^ 31"
  shows "ConvertAndPack cvt half_t float Round source
           = Inr (map (\<lambda>i. cvt half_t float Round (source ! nat (spec_repack_index (int i))))
                    [0..<length source])"
  by (simp add: ConvertAndPack_def repack_eq [OF assms] NumericArrayConverter_def comp_def)

theorem ConvertAndPack_float_to_half_witness:
  "4 dvd length [10, 11, 12, 13, 14, 15, 16, 17 :: nat]
   \<and> length [10, 11, 12, 13, 14, 15, 16, 17 :: nat] < 2 ^ 31
   \<and> ConvertAndPack (\<lambda>T S r x. x + 100) half_t float () [10, 11, 12, 13, 14, 15, 16, 17 :: nat]
     = Inr [110, 112, 111, 113, 114, 116, 115, 117]"
proof -
  let ?xs = "[10, 11, 12, 13, 14, 15, 16, 17 :: nat]"
  have len: "length ?xs = 8" by simp
  have h1: "4 dvd length ?xs" unfolding len by simp
  have h2: "length ?xs < 2 ^ 31" unfolding len by simp
  show ?thesis
    using h1 h2 ConvertAndPack_float_to_half [OF h1 h2, of "\<lambda>T S r x. x + 100" "()"]
    by (simp add: upt_rec spec_repack_index_def)
qed

lemma mset_map_nth_bij:
  assumes "bij_betw p {..<length xs} {..<length xs}"
  shows "mset (map (\<lambda>i. xs ! p i) [0..<length xs]) = mset xs"
proof -
  have inj: "inj_on p {..<length xs}" and img: "p ` {..<length xs} = {..<length xs}"
    using assms by (auto simp: bij_betw_def)
  have "mset (map (\<lambda>i. xs ! p i) [0..<length xs])
          = image_mset (\<lambda>i. xs ! i) (image_mset p (mset [0..<length xs]))"
    by (simp add: multiset.map_comp comp_def)
  also have "mset [0..<length xs] = mset_set {..<length xs}"
    by (simp add: mset_set_upto_eq_mset_upto)
  also have "image_mset p (mset_set {..<length xs}) = mset_set {..<length xs}"
    using image_mset_mset_set [OF inj] img by simp
  also have "mset_set {..<length xs} = mset [0..<length xs]"
    by (simp add: mset_set_upto_eq_mset_upto)
  also have "image_mset (\<lambda>i. xs ! i) (mset [0..<length xs]) = mset (map (\<lambda>i. xs ! i) [0..<length xs])"
    by simp
  also have "map (\<lambda>i. xs ! i) [0..<length xs] = xs"
    by (rule map_nth)
  finally show ?thesis .
qed

lemma spec_repack_index_if:
  "spec_repack_index k
     = 4 * (k div 4) + (if k mod 4 = 1 then 2 else if k mod 4 = 2 then 1 else k mod 4)"
proof -
  define a b where "a = k mod 2" and "b = (k div 2) mod 2"
  have ab: "0 \<le> a" "a < 2" "0 \<le> b" "b < 2" by (simp_all add: a_def b_def)
  have m: "k mod 4 = a + 2 * b" unfolding a_def b_def by (rule mod4_split)
  have "2 * a + b = (if a + 2 * b = 1 then 2 else if a + 2 * b = 2 then 1 else a + 2 * b)"
    using ab by presburger
  then show ?thesis
    unfolding spec_repack_index_closed [of k] m a_def [symmetric] b_def [symmetric] by simp
qed

lemma repack_perm_spec: "i < 2 ^ 31 \<Longrightarrow> repack_perm i = nat (spec_repack_index (int i))"
  by (simp add: repack_perm_def sint_repack_index)

lemma repack_perm_less:
  assumes "4 dvd N" "N < 2 ^ 31" "i < N"
  shows "repack_perm i < N"
  using spec_repack_index_range [OF assms(1,3)] assms by (simp add: repack_perm_spec nat_less_iff)

lemma repack_perm_twice:
  assumes "4 dvd N" "N < 2 ^ 31" "i < N"
  shows "repack_perm (repack_perm i) = i"
proof -
  have i: "i < 2 ^ 31" using assms by simp
  have j: "repack_perm i < 2 ^ 31" using repack_perm_less [OF assms] assms(2) by simp
  have nn: "0 \<le> spec_repack_index (int i)" using spec_repack_index_range [OF assms(1,3)] by simp
  show ?thesis
    unfolding repack_perm_spec [OF j] unfolding repack_perm_spec [OF i]
    using nn by (simp add: spec_repack_index_involution)
qed

lemma repack_perm_bij:
  assumes "4 dvd N" "N < 2 ^ 31"
  shows "bij_betw repack_perm {..<N} {..<N}"
  by (rule bij_betw_byWitness [where f' = repack_perm])
     (auto simp: repack_perm_twice [OF assms] repack_perm_less [OF assms])

lemma repack_eq_perm:
  assumes "4 dvd length source" "length source < 2 ^ 31"
  shows "repack source = Inr (map (\<lambda>i. source ! repack_perm i) [0..<length source])"
  unfolding repack_eq [OF assms] using assms(2) by (simp add: repack_perm_spec)

lemma repack_twice:
  assumes "4 dvd length xs" "length xs < 2 ^ 31"
  shows "\<exists>ys. repack xs = Inr ys \<and> mset ys = mset xs \<and> repack ys = Inr xs"
proof -
  let ?ys = "map (\<lambda>i. xs ! repack_perm i) [0..<length xs]"
  have len: "length ?ys = length xs" by simp
  have 1: "repack xs = Inr ?ys" by (rule repack_eq_perm [OF assms])
  have 2: "mset ?ys = mset xs" by (rule mset_map_nth_bij [OF repack_perm_bij [OF assms]])
  have "repack ?ys = Inr (map (\<lambda>i. ?ys ! repack_perm i) [0..<length xs])"
    using repack_eq_perm [of ?ys] assms by simp
  also have "map (\<lambda>i. ?ys ! repack_perm i) [0..<length xs] = map (\<lambda>i. xs ! i) [0..<length xs]"
    by (rule map_cong) (simp_all add: repack_perm_less [OF assms] repack_perm_twice [OF assms])
  also have "\<dots> = xs" by (rule map_nth)
  finally have 3: "repack ?ys = Inr xs" .
  show ?thesis using 1 2 3 by blast
qed

text \<open>
  Claim C10. The index map swaps the two low bits of its argument and keeps the others.
  So it is its own inverse on all 32-bit values; index \<open>i\<close> goes to the index of the same
  aligned block of four whose position in the block is 0, 2, 1, 3 for the positions
  0, 1, 2, 3; for every length \<open>N\<close> that is a multiple of 4 the slot read at iteration
  \<open>i\<close> is a bijection of \<open>{0, ..., N - 1}\<close>, so each source element is read exactly once;
  and repacking a fragment of such a length twice gives the fragment back.
\<close>

theorem repack_index_block_involution:
  "(\<forall>w. repack_index (repack_index w) = w)
   \<and> (\<forall>i. i < 2 ^ 31 \<longrightarrow>
          sint (repack_index (word_of_nat i))
            = 4 * (int i div 4)
              + (if int i mod 4 = 1 then 2 else if int i mod 4 = 2 then 1 else int i mod 4))
   \<and> (\<forall>N. 4 dvd N \<and> N < 2 ^ 31 \<longrightarrow> bij_betw repack_perm {..<N} {..<N})
   \<and> (\<forall>xs :: 'v list. 4 dvd length xs \<and> length xs < 2 ^ 31 \<longrightarrow>
          (\<exists>ys. repack xs = Inr ys \<and> mset ys = mset xs \<and> repack ys = Inr xs))"
proof (intro conjI allI impI)
  fix w show "repack_index (repack_index w) = w" by (rule repack_index_involution)
next
  fix i :: nat assume "i < 2 ^ 31"
  then show "sint (repack_index (word_of_nat i))
            = 4 * (int i div 4)
              + (if int i mod 4 = 1 then 2 else if int i mod 4 = 2 then 1 else int i mod 4)"
    by (simp only: sint_repack_index spec_repack_index_if)
next
  fix N :: nat assume "4 dvd N \<and> N < 2 ^ 31"
  then show "bij_betw repack_perm {..<N} {..<N}" by (simp add: repack_perm_bij)
next
  fix xs :: "'v list" assume "4 dvd length xs \<and> length xs < 2 ^ 31"
  then show "\<exists>ys. repack xs = Inr ys \<and> mset ys = mset xs \<and> repack ys = Inr xs"
    by (simp add: repack_twice)
qed

theorem repack_index_block_involution_witness:
  "repack_index (repack_index 5) = 5
   \<and> (5 :: nat) < 2 ^ 31 \<and> sint (repack_index (word_of_nat 5)) = 6
   \<and> 4 dvd (8 :: nat) \<and> (8 :: nat) < 2 ^ 31 \<and> bij_betw repack_perm {..<8} {..<8}
   \<and> 4 dvd length ''abcdefgh'' \<and> length ''abcdefgh'' < 2 ^ 31
   \<and> repack ''abcdefgh'' = Inr ''acbdegfh'' \<and> repack ''acbdegfh'' = Inr ''abcdefgh''"
proof -
  note t = repack_index_block_involution [where 'v = char]
  have a: "repack_index (repack_index 5) = 5" using t by blast
  have b: "sint (repack_index (word_of_nat 5)) = 6"
    using t [THEN conjunct2, THEN conjunct1, THEN spec, of 5] by simp
  have c: "bij_betw repack_perm {..<8} {..<8}"
    using t [THEN conjunct2, THEN conjunct2, THEN conjunct1, THEN spec, of 8] by simp
  have len: "length ''abcdefgh'' = 8" by simp
  have d: "repack ''abcdefgh'' = Inr ''acbdegfh''"
    by (simp add: repack_def repack_body_def upt_rec repack_index_def)
  obtain ys where ys: "repack ''abcdefgh'' = Inr ys" "repack ys = Inr ''abcdefgh''"
    using t [THEN conjunct2, THEN conjunct2, THEN conjunct2, THEN spec, of "''abcdefgh''"]
    unfolding len by auto
  have e: "repack ''acbdegfh'' = Inr ''abcdefgh''" using ys d by simp
  have f: "4 dvd length ''abcdefgh''" "length ''abcdefgh'' < 2 ^ 31" unfolding len by simp_all
  show ?thesis using a b c d e f by simp
qed

section \<open>Tile decomposition\<close>

lemma sdiv_nonneg: "0 \<le> a \<Longrightarrow> 0 < b \<Longrightarrow> a sdiv b = a div (b::int)"
  by (cases "a = 0") (simp_all add: signed_divide_int_def)

lemma smod_eq_0_iff_dvd: "b \<noteq> 0 \<Longrightarrow> a smod b = 0 \<longleftrightarrow> b dvd (a::int)"
  by (auto simp add: signed_modulo_int_def sgn_0_0 mod_eq_0_iff_dvd)

lemma for_each_error:
  assumes "\<And>i s e. body i s = Inl e \<Longrightarrow> e = UndefinedBehavior"
  shows "for_each js body s = Inl e \<Longrightarrow> e = UndefinedBehavior"
  by (induction js arbitrary: s) (auto split: sum.splits dest: assms)

lemma mma_body_error:
  "mma_body rm kRow kColumn mma A B off n m D = Inl e \<Longrightarrow> e = UndefinedBehavior"
  by (auto simp: mma_body_def mma_call_def split: if_splits)

lemma serpentine_loop_error:
  assumes "\<And>n m s e. body n m s = Inl e \<Longrightarrow> e = UndefinedBehavior"
  shows "serpentine_loop kRow kColumn body s = Inl e \<Longrightarrow> e = UndefinedBehavior"
  unfolding serpentine_loop_def
  by (erule for_each_error [rotated]) (erule for_each_error [rotated], erule assms)

lemma driver_loop_error:
  "serpentine_loop kRow kColumn (mma_body rm kRow kColumn mma A B off) C = Inl e
     \<Longrightarrow> e = UndefinedBehavior"
  by (erule serpentine_loop_error [rotated]) (erule mma_body_error)

lemma n_off_error: "n_off cfg p = Inl e \<Longrightarrow> e = UndefinedBehavior"
  by (auto simp: n_off_def int_mul_def int_div_def split: sum.splits if_splits)

text \<open>
  Claim C8. When both operator dimensions divide the tile dimensions, the iteration grid
  has \<open>Shape.M / ElemShape.M\<close> rows and \<open>max(1, Shape.N / ElemShape.N / N-partitions)\<close>
  columns (the divisions are those of C++). A configuration in which \<open>Shape.M\<close> is not a
  multiple of \<open>ElemShape.M\<close>, or \<open>Shape.N\<close> not a multiple of \<open>ElemShape.N\<close>, is rejected
  when the program is built. Once a configuration is accepted, no run of the driver ends
  in a rejection: the shapes are not checked again at run time.
\<close>

theorem MmaIterations_grid:
  "(kM (OperatorShape cfg) \<noteq> 0 \<and> kN (OperatorShape cfg) \<noteq> 0 \<and> kPartitionsN cfg \<noteq> 0
      \<and> kM (OperatorShape cfg) dvd kM (Shape cfg) \<and> kN (OperatorShape cfg) dvd kN (Shape cfg)
    \<longrightarrow> MmaIterations cfg
          = Inr (kM (Shape cfg) sdiv kM (OperatorShape cfg),
                 max 1 (kN (Shape cfg) sdiv kN (OperatorShape cfg) sdiv kPartitionsN cfg)))
   \<and> (\<not> (kM (OperatorShape cfg) dvd kM (Shape cfg) \<and> kN (OperatorShape cfg) dvd kN (Shape cfg))
    \<longrightarrow> (\<exists>e. MmaIterations cfg = Inl e \<and> e \<noteq> UndefinedBehavior))
   \<and> (\<forall>g. MmaIterations cfg = Inr g
    \<longrightarrow> MmaTensorOp_call cfg mma A B C partitionN_idx \<noteq> Inl StaticAssertFailed
        \<and> MmaTensorOp_call cfg mma A B C partitionN_idx \<noteq> Inl IllFormedConstant)"
proof (intro conjI impI allI)
  assume "kM (OperatorShape cfg) \<noteq> 0 \<and> kN (OperatorShape cfg) \<noteq> 0 \<and> kPartitionsN cfg \<noteq> 0
      \<and> kM (OperatorShape cfg) dvd kM (Shape cfg) \<and> kN (OperatorShape cfg) dvd kN (Shape cfg)"
  then show "MmaIterations cfg
          = Inr (kM (Shape cfg) sdiv kM (OperatorShape cfg),
                 max 1 (kN (Shape cfg) sdiv kN (OperatorShape cfg) sdiv kPartitionsN cfg))"
    by (simp add: MmaIterations_def smod_eq_0_iff_dvd max_def)
next
  assume "\<not> (kM (OperatorShape cfg) dvd kM (Shape cfg) \<and> kN (OperatorShape cfg) dvd kN (Shape cfg))"
  then show "\<exists>e. MmaIterations cfg = Inl e \<and> e \<noteq> UndefinedBehavior"
    by (auto simp add: MmaIterations_def smod_eq_0_iff_dvd)
next
  fix g assume g: "MmaIterations cfg = Inr g"
  obtain r c where rc: "g = (r, c)" by (cases g)
  have "MmaTensorOp_call cfg mma A B C partitionN_idx = Inl e \<Longrightarrow> e = UndefinedBehavior" for e
    unfolding MmaTensorOp_call_def g rc
    by (auto split: sum.splits dest: n_off_error driver_loop_error)
  then show "MmaTensorOp_call cfg mma A B C partitionN_idx \<noteq> Inl StaticAssertFailed"
    and "MmaTensorOp_call cfg mma A B C partitionN_idx \<noteq> Inl IllFormedConstant"
    by auto
qed

theorem MmaIterations_grid_witness:
  "MmaIterations \<lparr>Shape = \<lparr>kM = 64, kN = 64, kK = 8\<rparr>, ElementA = half_t, ElementB = half_t,
      OperatorShape = \<lparr>kM = 16, kN = 8, kK = 8\<rparr>, OperatorElementA = half_t,
      OperatorElementB = half_t, kPartitionsN = 2, AccumulatorsInRowMajor = False,
      FragmentB_kElements = 16, MmaOperandB_kElements = 2\<rparr> = Inr (4, 4)
   \<and> MmaIterations \<lparr>Shape = \<lparr>kM = 60, kN = 64, kK = 8\<rparr>, ElementA = half_t, ElementB = half_t,
      OperatorShape = \<lparr>kM = 16, kN = 8, kK = 8\<rparr>, OperatorElementA = half_t,
      OperatorElementB = half_t, kPartitionsN = 2, AccumulatorsInRowMajor = False,
      FragmentB_kElements = 16, MmaOperandB_kElements = 2\<rparr> = Inl StaticAssertFailed
   \<and> MmaTensorOp_call \<lparr>Shape = \<lparr>kM = 64, kN = 64, kK = 8\<rparr>, ElementA = half_t, ElementB = half_t,
      OperatorShape = \<lparr>kM = 16, kN = 8, kK = 8\<rparr>, OperatorElementA = half_t,
      OperatorElementB = half_t, kPartitionsN = 2, AccumulatorsInRowMajor = False,
      FragmentB_kElements = 16, MmaOperandB_kElements = 2\<rparr>
        (\<lambda>a b c. a * b + c) [1, 2, 3, 4 :: int] [1, 2, 3, 4, 5, 6, 7, 8] (replicate 32 0) 0
       \<noteq> Inl StaticAssertFailed"
proof -
  let ?ok = "\<lparr>Shape = \<lparr>kM = 64, kN = 64, kK = 8\<rparr>, ElementA = half_t, ElementB = half_t,
      OperatorShape = \<lparr>kM = 16, kN = 8, kK = 8\<rparr>, OperatorElementA = half_t,
      OperatorElementB = half_t, kPartitionsN = 2, AccumulatorsInRowMajor = False,
      FragmentB_kElements = 16, MmaOperandB_kElements = 2\<rparr>"
  let ?bad = "\<lparr>Shape = \<lparr>kM = 60, kN = 64, kK = 8\<rparr>, ElementA = half_t, ElementB = half_t,
      OperatorShape = \<lparr>kM = 16, kN = 8, kK = 8\<rparr>, OperatorElementA = half_t,
      OperatorElementB = half_t, kPartitionsN = 2, AccumulatorsInRowMajor = False,
      FragmentB_kElements = 16, MmaOperandB_kElements = 2\<rparr>"

  have a: "MmaIterations ?ok = Inr (4, 4)"
    using MmaIterations_grid [of ?ok, THEN conjunct1] by (simp add: signed_divide_int_def)
  have b: "MmaIterations ?bad = Inl StaticAssertFailed"
    by (simp add: MmaIterations_def signed_modulo_int_def)
  have c: "MmaTensorOp_call ?ok (\<lambda>a b c. a * b + c) [1, 2, 3, 4 :: int] [1, 2, 3, 4, 5, 6, 7, 8]
             (replicate 32 0) 0 \<noteq> Inl StaticAssertFailed"
    using MmaIterations_grid [of ?ok "\<lambda>a b c. a * b + c" "[1, 2, 3, 4 :: int]" "[1, 2, 3, 4, 5, 6, 7, 8]" "replicate 32 0" 0,
        THEN conjunct2, THEN conjunct2] a by simp
  show ?thesis using a b c by simp
qed

section \<open>The serpentine order on a concrete tile\<close>

lemma upto_0_3: "[0..3::int] = [0,1,2,3]" by (simp add: upto_rec1)
lemma upto_0_7: "[0..7::int] = [0,1,2,3,4,5,6,7]" by (simp add: upto_rec1)

text \<open>
  Claim C9. For the tile shape (64, 64, 8), the operator shape (16, 8, 8) and one
  partition, the iteration grid is 4 rows by 8 columns. The loop nest reaches 32 pairs,
  no pair twice: (0,0) to (3,0), then (3,1) back to (0,1), then (0,2) to (3,2), and so on,
  turning round at every column. Run with an elementary operator that appends its operand
  pair to the accumulator it is given, on operands that carry their own index, the driver
  leaves in every one of the 32 accumulator slots exactly one pair, the pair \<open>(m, n)\<close> of
  that slot, in the column-major and in the row-major layout: each slot is written once.
\<close>

theorem serpentine_64x64_by_16x8:
  "MmaIterations (cfg\<lparr>Shape := \<lparr>kM = 64, kN = 64, kK = 8\<rparr>,
                      OperatorShape := \<lparr>kM = 16, kN = 8, kK = 8\<rparr>, kPartitionsN := 1\<rparr>) = Inr (4, 8)
   \<and> visits 4 8 =
       Inr [(0, 0), (1, 0), (2, 0), (3, 0), (3, 1), (2, 1), (1, 1), (0, 1),
            (0, 2), (1, 2), (2, 2), (3, 2), (3, 3), (2, 3), (1, 3), (0, 3),
            (0, 4), (1, 4), (2, 4), (3, 4), (3, 5), (2, 5), (1, 5), (0, 5),
            (0, 6), (1, 6), (2, 6), (3, 6), (3, 7), (2, 7), (1, 7), (0, 7)]
   \<and> (\<exists>vs. visits 4 8 = Inr vs \<and> length vs = 32 \<and> distinct vs)
   \<and> MmaTensorOp_call
         (cfg\<lparr>Shape := \<lparr>kM = 64, kN = 64, kK = 8\<rparr>,
              OperatorShape := \<lparr>kM = 16, kN = 8, kK = 8\<rparr>, kPartitionsN := 1,
              AccumulatorsInRowMajor := False,
              FragmentB_kElements := 16, MmaOperandB_kElements := 2\<rparr>)
         (\<lambda>a b c. c @ [(a, b)]) [0, 1, 2, 3 :: int] [0, 1, 2, 3, 4, 5, 6, 7 :: int]
         (replicate 32 []) 0 =
       Inr [[(0, 0)], [(1, 0)], [(2, 0)], [(3, 0)], [(0, 1)], [(1, 1)], [(2, 1)], [(3, 1)],
            [(0, 2)], [(1, 2)], [(2, 2)], [(3, 2)], [(0, 3)], [(1, 3)], [(2, 3)], [(3, 3)],
            [(0, 4)], [(1, 4)], [(2, 4)], [(3, 4)], [(0, 5)], [(1, 5)], [(2, 5)], [(3, 5)],
            [(0, 6)], [(1, 6)], [(2, 6)], [(3, 6)], [(0, 7)], [(1, 7)], [(2, 7)], [(3, 7)]]
   \<and> MmaTensorOp_call
         (cfg\<lparr>Shape := \<lparr>kM = 64, kN = 64, kK = 8\<rparr>,
              OperatorShape := \<lparr>kM = 16, kN = 8, kK = 8\<rparr>, kPartitionsN := 1,
              AccumulatorsInRowMajor := True,
              FragmentB_kElements := 16, MmaOperandB_kElements := 2\<rparr>)
         (\<lambda>a b c. c @ [(a, b)]) [0, 1, 2, 3 :: int] [0, 1, 2, 3, 4, 5, 6, 7 :: int]
         (replicate 32 []) 0 =
       Inr [[(0, 0)], [(0, 1)], [(0, 2)], [(0, 3)], [(0, 4)], [(0, 5)], [(0, 6)], [(0, 7)],
            [(1, 0)], [(1, 1)], [(1, 2)], [(1, 3)], [(1, 4)], [(1, 5)], [(1, 6)], [(1, 7)],
            [(2, 0)], [(2, 1)], [(2, 2)], [(2, 3)], [(2, 4)], [(2, 5)], [(2, 6)], [(2, 7)],
            [(3, 0)], [(3, 1)], [(3, 2)], [(3, 3)], [(3, 4)], [(3, 5)], [(3, 6)], [(3, 7)]]"
proof (intro conjI)
  show "MmaIterations (cfg\<lparr>Shape := \<lparr>kM = 64, kN = 64, kK = 8\<rparr>,
                      OperatorShape := \<lparr>kM = 16, kN = 8, kK = 8\<rparr>, kPartitionsN := 1\<rparr>) = Inr (4, 8)"
    by (simp add: MmaIterations_def signed_modulo_int_def signed_divide_int_def)
  show v: "visits 4 8 =
       Inr [(0, 0), (1, 0), (2, 0), (3, 0), (3, 1), (2, 1), (1, 1), (0, 1),
            (0, 2), (1, 2), (2, 2), (3, 2), (3, 3), (2, 3), (1, 3), (0, 3),
            (0, 4), (1, 4), (2, 4), (3, 4), (3, 5), (2, 5), (1, 5), (0, 5),
            (0, 6), (1, 6), (2, 6), (3, 6), (3, 7), (2, 7), (1, 7), (0, 7)]"
    by (simp add: visits_def serpentine_loop_def upto_0_3 upto_0_7)
  show "\<exists>vs. visits 4 8 = Inr vs \<and> length vs = 32 \<and> distinct vs"
    unfolding v by simp
  show "MmaTensorOp_call
         (cfg\<lparr>Shape := \<lparr>kM = 64, kN = 64, kK = 8\<rparr>,
              OperatorShape := \<lparr>kM = 16, kN = 8, kK = 8\<rparr>, kPartitionsN := 1,
              AccumulatorsInRowMajor := False,
              FragmentB_kElements := 16, MmaOperandB_kElements := 2\<rparr>)
         (\<lambda>a b c. c @ [(a, b)]) [0, 1, 2, 3 :: int] [0, 1, 2, 3, 4, 5, 6, 7 :: int]
         (replicate 32 []) 0 =
       Inr [[(0, 0)], [(1, 0)], [(2, 0)], [(3, 0)], [(0, 1)], [(1, 1)], [(2, 1)], [(3, 1)],
            [(0, 2)], [(1, 2)], [(2, 2)], [(3, 2)], [(0, 3)], [(1, 3)], [(2, 3)], [(3, 3)],
            [(0, 4)], [(1, 4)], [(2, 4)], [(3, 4)], [(0, 5)], [(1, 5)], [(2, 5)], [(3, 5)],
            [(0, 6)], [(1, 6)], [(2, 6)], [(3, 6)], [(0, 7)], [(1, 7)], [(2, 7)], [(3, 7)]]"
    by (simp add: MmaTensorOp_call_def MmaIterations_def signed_modulo_int_def signed_divide_int_def
        n_off_def int_mul_def int_div_def in_int32_def
        serpentine_loop_def upto_0_3 upto_0_7 mma_body_def mma_call_def in_bounds_def
        numeral_eq_Suc)
  show "MmaTensorOp_call
         (cfg\<lparr>Shape := \<lparr>kM = 64, kN = 64, kK = 8\<rparr>,
              OperatorShape := \<lparr>kM = 16, kN = 8, kK = 8\<rparr>, kPartitionsN := 1,
              AccumulatorsInRowMajor := True,
              FragmentB_kElements := 16, MmaOperandB_kElements := 2\<rparr>)
         (\<lambda>a b c. c @ [(a, b)]) [0, 1, 2, 3 :: int] [0, 1, 2, 3, 4, 5, 6, 7 :: int]
         (replicate 32 []) 0 =
       Inr [[(0, 0)], [(0, 1)], [(0, 2)], [(0, 3)], [(0, 4)], [(0, 5)], [(0, 6)], [(0, 7)],
            [(1, 0)], [(1, 1)], [(1, 2)], [(1, 3)], [(1, 4)], [(1, 5)], [(1, 6)], [(1, 7)],
            [(2, 0)], [(2, 1)], [(2, 2)], [(2, 3)], [(2, 4)], [(2, 5)], [(2, 6)], [(2, 7)],
            [(3, 0)], [(3, 1)], [(3, 2)], [(3, 3)], [(3, 4)], [(3, 5)], [(3, 6)], [(3, 7)]]"
    by (simp add: MmaTensorOp_call_def MmaIterations_def signed_modulo_int_def signed_divide_int_def
        n_off_def int_mul_def int_div_def in_int32_def
        serpentine_loop_def upto_0_3 upto_0_7 mma_body_def mma_call_def in_bounds_def
        numeral_eq_Suc)
qed

section \<open>The serpentine driver\<close>

subsection \<open>Loops whose steps commute\<close>

lemma and_then_simps [simp]: "and_then (Inl e) f = Inl e" "and_then (Inr s) f = f s"
  by (simp_all add: and_then_def)

lemma and_then_assoc: "and_then (and_then r f) g = and_then r (\<lambda>s. and_then (f s) g)"
  by (cases r) simp_all

lemma and_then_Inr [simp]: "and_then r Inr = r"
  by (cases r) simp_all

lemma for_each_Cons: "for_each (i # js) body s = and_then (body i s) (for_each js body)"
  by (simp add: and_then_def)

lemma for_each_append:
  "for_each (xs @ ys) body s = and_then (for_each xs body s) (for_each ys body)"
  by (induction xs arbitrary: s) (simp_all add: and_then_def split: sum.splits)

lemma for_each_map: "for_each (map g xs) body s = for_each xs (\<lambda>i. body (g i)) s"
  by (induction xs arbitrary: s) (simp_all split: sum.splits)

lemma for_each_cong:
  "(\<And>i s. i \<in> set xs \<Longrightarrow> body i s = body' i s) \<Longrightarrow> for_each xs body s = for_each xs body' s"
  by (induction xs arbitrary: s) (simp_all split: sum.splits)

lemma for_each_push:
  assumes "\<And>y. y \<in> set xs \<Longrightarrow> commute (body x) (body y)"
  shows "and_then (for_each xs body s) (body x) = and_then (body x s) (for_each xs body)"
  using assms
proof (induction xs arbitrary: s)
  case Nil
  then show ?case by simp
next
  case (Cons y ys)
  have c: "and_then (body x s) (body y) = and_then (body y s) (body x)"
    using Cons.prems [of y] by (simp add: commute_def)
  have "and_then (for_each (y # ys) body s) (body x)
          = and_then (body y s) (\<lambda>t. and_then (for_each ys body t) (body x))"
    by (simp only: for_each_Cons and_then_assoc)
  also have "\<dots> = and_then (body y s) (\<lambda>t. and_then (body x t) (for_each ys body))"
    using Cons.IH Cons.prems by simp
  also have "\<dots> = and_then (and_then (body y s) (body x)) (for_each ys body)"
    by (simp only: and_then_assoc)
  also have "\<dots> = and_then (and_then (body x s) (body y)) (for_each ys body)"
    by (simp only: c)
  also have "\<dots> = and_then (body x s) (for_each (y # ys) body)"
    by (simp add: and_then_assoc for_each_Cons [abs_def])
  finally show ?case .
qed

lemma for_each_rev:
  assumes "\<And>x y. x \<in> set xs \<Longrightarrow> y \<in> set xs \<Longrightarrow> commute (body x) (body y)"
  shows "for_each (rev xs) body s = for_each xs body s"
  using assms
proof (induction xs arbitrary: s)
  case Nil
  then show ?case by simp
next
  case (Cons x xs)
  have "for_each (rev (x # xs)) body s = and_then (for_each (rev xs) body s) (for_each [x] body)"
    by (simp add: for_each_append)
  also have "for_each [x] body = body x"
    by (rule ext) (simp split: sum.splits)
  also have "for_each (rev xs) body s = for_each xs body s"
    using Cons by simp
  also have "and_then (for_each xs body s) (body x) = and_then (body x s) (for_each xs body)"
    by (rule for_each_push) (simp add: Cons.prems)
  finally show ?case by (simp add: and_then_def)
qed

lemma map_reverse_upto: "map (\<lambda>m. k - 1 - m) [0..k - 1] = rev [0..k - 1]"
proof (rule nth_equalityI)
  show "length (map (\<lambda>m. k - 1 - m) [0..k - 1]) = length (rev [0..k - 1])" by simp
next
  fix i assume "i < length (map (\<lambda>m. k - 1 - m) [0..k - 1])"
  then have i: "int i < k" by simp
  then have "rev [0..k - 1] ! i = [0..k - 1] ! (nat k - Suc i)" by (simp add: rev_nth)
  also have "\<dots> = 0 + int (nat k - Suc i)" using i by (intro nth_upto) simp
  finally have r: "rev [0..k - 1] ! i = k - 1 - int i" using i by simp
  have "map (\<lambda>m. k - 1 - m) [0..k - 1] ! i = k - 1 - ([0..k - 1] ! i)" using i by simp
  also have "[0..k - 1] ! i = 0 + int i" using i by (intro nth_upto) simp
  finally show "map (\<lambda>m. k - 1 - m) [0..k - 1] ! i = rev [0..k - 1] ! i" using r by simp
qed

lemma mma_call_length:
  "mma_call mma A B d a b D = Inr D' \<Longrightarrow> length D' = length D"
  by (auto simp: mma_call_def split: if_splits)

lemma mma_call_commute:
  fixes mma :: "'a \<Rightarrow> 'b \<Rightarrow> 'c \<Rightarrow> 'c"
  assumes "d \<noteq> d'"
  shows "commute (mma_call mma A B d a b) (mma_call mma A B d' a' b')"
  unfolding commute_def
proof
  fix D :: "'c list"
  show "and_then (mma_call mma A B d a b D) (mma_call mma A B d' a' b')
          = and_then (mma_call mma A B d' a' b' D) (mma_call mma A B d a b)"
  proof (cases "(in_bounds d D \<and> in_bounds a A \<and> in_bounds b B)
                  \<and> (in_bounds d' D \<and> in_bounds a' A \<and> in_bounds b' B)")
    case True
    then have ne: "nat d \<noteq> nat d'" using assms by (auto simp: in_bounds_def)
    show ?thesis using True ne
      by (simp add: mma_call_def in_bounds_def list_update_swap [of "nat d" "nat d'"])
  next
    case False
    then show ?thesis
      by (auto simp: mma_call_def in_bounds_def)
  qed
qed

lemma mma_body_unfold:
  "mma_body True kRow kColumn mma A B off n m
     = mma_call mma A B (n + m * kColumn) m n"
  "mma_body False kRow kColumn mma A B off n m
     = mma_call mma A B (m + (n + off) * kRow) m (n + off)"
  by (rule ext, simp add: mma_body_def)+

lemma mma_body_commute:
  assumes "kColumn \<noteq> 0"
  shows "commute (mma_body rm kRow kColumn mma A B off n m)
                 (mma_body rm kRow kColumn mma A B off n m')"
proof (cases "m = m'")
  case True
  then show ?thesis by (simp add: commute_def)
next
  case False
  then show ?thesis using assms
    by (cases rm) (simp_all add: mma_body_unfold mma_call_commute)
qed

lemma serpentine_loop_eq_naive:
  fixes mma :: "'a \<Rightarrow> 'b \<Rightarrow> 'c \<Rightarrow> 'c"
  assumes "kColumn \<noteq> 0"
  shows "serpentine_loop kRow kColumn (mma_body rm kRow kColumn mma A B off) D
           = naive_loop kRow kColumn (mma_body rm kRow kColumn mma A B off) D"
  unfolding serpentine_loop_def naive_loop_def
proof (rule for_each_cong)
  fix n :: int and s :: "'c list"
  let ?body = "mma_body rm kRow kColumn mma A B off"
  show "for_each [0..kRow - 1] (\<lambda>m. ?body n (if n mod 2 \<noteq> 0 then kRow - 1 - m else m)) s
          = for_each [0..kRow - 1] (?body n) s"
  proof (cases "n mod 2 \<noteq> 0")
    case True
    then have "for_each [0..kRow - 1] (\<lambda>m. ?body n (if n mod 2 \<noteq> 0 then kRow - 1 - m else m)) s
                 = for_each [0..kRow - 1] (\<lambda>m. ?body n (kRow - 1 - m)) s"
      by simp
    also have "\<dots> = for_each (map (\<lambda>m. kRow - 1 - m) [0..kRow - 1]) (?body n) s"
      by (simp only: for_each_map)
    also have "\<dots> = for_each (rev [0..kRow - 1]) (?body n) s"
      by (simp only: map_reverse_upto)
    also have "\<dots> = for_each [0..kRow - 1] (?body n) s"
      by (rule for_each_rev) (rule mma_body_commute [OF assms])
    finally show ?thesis .
  next
    case False
    then show ?thesis by simp
  qed
qed

lemma MmaIterations_kColumn_pos: "MmaIterations cfg = Inr (kRow, kColumn) \<Longrightarrow> 1 \<le> kColumn"
  by (auto simp: MmaIterations_def split: if_splits)

text \<open>
  Claim C1. For every configuration, every elementary operator and all fragments
  \<open>A\<close>, \<open>B\<close>, \<open>C\<close>, the serpentine driver and the naive forward double loop over the
  same pairs, both started from \<open>D = C\<close>, end alike: with the same output fragment, or
  both undefined, or both rejected when the configuration violates the divisibility
  invariant. The serpentine order changes the order of the visits only.
\<close>

theorem serpentine_equals_naive:
  "MmaTensorOp_call cfg mma A B C partitionN_idx = naive_call cfg mma A B C partitionN_idx"
proof (cases "MmaIterations cfg")
  case (Inl e)
  then show ?thesis by (simp add: MmaTensorOp_call_def naive_call_def)
next
  case (Inr g)
  obtain kRow kColumn where g: "g = (kRow, kColumn)" by (cases g)
  have "kColumn \<noteq> 0" using MmaIterations_kColumn_pos [of cfg kRow kColumn] Inr g by simp
  then show ?thesis
    by (simp add: MmaTensorOp_call_def naive_call_def Inr g serpentine_loop_eq_naive
             split: sum.splits)
qed

subsection \<open>What the driver leaves in each accumulator slot\<close>

lemma mma_body_indices:
  "mma_body rm kRow kColumn mma A B off n m
     = mma_call mma A B (acc_index rm kRow kColumn off n m) m (b_index rm off n)"
  by (rule ext) (simp add: mma_body_def acc_index_def b_index_def)

lemma for_each_nested:
  "for_each xs (\<lambda>n. for_each ys (body n)) s
     = for_each (List.product xs ys) (\<lambda>(n, m). body n m) s"
proof (induction xs arbitrary: s)
  case Nil
  then show ?case by simp
next
  case (Cons x xs)
  have "for_each (List.product (x # xs) ys) (\<lambda>(n, m). body n m) s
          = and_then (for_each (map (Pair x) ys) (\<lambda>(n, m). body n m) s)
              (for_each (List.product xs ys) (\<lambda>(n, m). body n m))"
    by (simp add: for_each_append)
  also have "for_each (map (Pair x) ys) (\<lambda>(n, m). body n m) s = for_each ys (body x) s"
    by (simp add: for_each_map)
  also have "for_each (List.product xs ys) (\<lambda>(n, m). body n m) = for_each xs (\<lambda>n. for_each ys (body n))"
    by (rule ext) (simp add: Cons.IH)
  finally show ?case by (simp add: and_then_def)
qed

lemma for_each_mma_call_fail:
  fixes mma :: "'a \<Rightarrow> 'b \<Rightarrow> 'c \<Rightarrow> 'c" and D :: "'c list"
  assumes "x \<in> set xs"
    and "\<not> (in_bounds (di x) D \<and> in_bounds (ai x) A \<and> in_bounds (bi x) B)"
  shows "for_each xs (\<lambda>x. mma_call mma A B (di x) (ai x) (bi x)) D = Inl UndefinedBehavior"
  using assms
proof (induction xs arbitrary: D)
  case Nil
  then show ?case by simp
next
  case (Cons y ys)
  show ?case
  proof (cases "mma_call mma A B (di y) (ai y) (bi y) D")
    case (Inl e)
    then have "e = UndefinedBehavior" by (auto simp: mma_call_def split: if_splits)
    then show ?thesis using Inl by simp
  next
    case (Inr D1)
    then have len: "length D1 = length D" by (rule mma_call_length)
    have "x \<noteq> y" using Inr Cons.prems(2) by (auto simp: mma_call_def split: if_splits)
    then have "x \<in> set ys" using Cons.prems(1) by simp
    moreover have "\<not> (in_bounds (di x) D1 \<and> in_bounds (ai x) A \<and> in_bounds (bi x) B)"
      using Cons.prems(2) len by (simp add: in_bounds_def)
    ultimately show ?thesis using Cons.IH [of D1] Inr by simp
  qed
qed

lemma for_each_mma_call_ok:
  fixes mma :: "'a \<Rightarrow> 'b \<Rightarrow> 'c \<Rightarrow> 'c" and D :: "'c list"
  assumes "\<And>x. x \<in> set xs \<Longrightarrow> in_bounds (di x) D \<and> in_bounds (ai x) A \<and> in_bounds (bi x) B"
    and "inj_on di (set xs)" and "distinct xs"
  shows "\<exists>D'. for_each xs (\<lambda>x. mma_call mma A B (di x) (ai x) (bi x)) D = Inr D'
           \<and> length D' = length D
           \<and> (\<forall>x. x \<in> set xs \<longrightarrow>
                 D' ! nat (di x) = mma (A ! nat (ai x)) (B ! nat (bi x)) (D ! nat (di x)))
           \<and> (\<forall>j. j < length D \<and> int j \<notin> di ` set xs \<longrightarrow> D' ! j = D ! j)"
  using assms
proof (induction xs arbitrary: D)
  case Nil
  then show ?case by simp
next
  case (Cons y ys)
  let ?v = "mma (A ! nat (ai y)) (B ! nat (bi y)) (D ! nat (di y))"
  let ?D1 = "D[nat (di y) := ?v]"
  have bd: "in_bounds (di y) D" "in_bounds (ai y) A" "in_bounds (bi y) B"
    using Cons.prems(1) [of y] by simp_all
  have step: "mma_call mma A B (di y) (ai y) (bi y) D = Inr ?D1"
    using bd by (simp add: mma_call_def)
  have b1: "\<And>x. x \<in> set ys \<Longrightarrow> in_bounds (di x) ?D1 \<and> in_bounds (ai x) A \<and> in_bounds (bi x) B"
    using Cons.prems(1) by (simp add: in_bounds_def)
  have inj: "inj_on di (set ys)" using Cons.prems(2) by (simp add: inj_on_def)
  have dist: "distinct ys" "y \<notin> set ys" using Cons.prems(3) by simp_all
  obtain D' where D': "for_each ys (\<lambda>x. mma_call mma A B (di x) (ai x) (bi x)) ?D1 = Inr D'"
      "length D' = length ?D1"
      "\<And>x. x \<in> set ys \<Longrightarrow>
         D' ! nat (di x) = mma (A ! nat (ai x)) (B ! nat (bi x)) (?D1 ! nat (di x))"
      "\<And>j. j < length ?D1 \<Longrightarrow> int j \<notin> di ` set ys \<Longrightarrow> D' ! j = ?D1 ! j"
    using Cons.IH [OF b1 inj dist(1)] by blast
  have ne: "di x \<noteq> di y" if "x \<in> set ys" for x
    using that dist(2) Cons.prems(2) by (auto simp: inj_on_def)
  have 1: "for_each (y # ys) (\<lambda>x. mma_call mma A B (di x) (ai x) (bi x)) D = Inr D'"
    using step D'(1) by simp
  have 2: "length D' = length D" using D'(2) by simp
  have 3: "D' ! nat (di x) = mma (A ! nat (ai x)) (B ! nat (bi x)) (D ! nat (di x))"
    if x: "x \<in> set (y # ys)" for x
  proof (cases "x = y")
    case True
    have "int (nat (di y)) = di y" using bd(1) by (simp add: in_bounds_def)
    moreover have "di y \<notin> di ` set ys" using ne by fastforce
    ultimately have "int (nat (di y)) \<notin> di ` set ys" by simp
    moreover have "nat (di y) < length ?D1" using bd(1) by (simp add: in_bounds_def nat_less_iff)
    ultimately have "D' ! nat (di y) = ?D1 ! nat (di y)" by (rule D'(4) [rotated])
    also have "\<dots> = ?v" using bd(1) by (simp add: in_bounds_def nat_less_iff)
    finally show ?thesis using True by simp
  next
    case False
    then have xs: "x \<in> set ys" using x by simp
    have "in_bounds (di x) D" using Cons.prems(1) [of x] x by simp
    then have "nat (di x) \<noteq> nat (di y)" using ne [OF xs] bd(1) by (auto simp: in_bounds_def)
    then have "?D1 ! nat (di x) = D ! nat (di x)" by simp
    then show ?thesis using D'(3) [OF xs] by simp
  qed
  have 4: "D' ! j = D ! j" if "j < length D \<and> int j \<notin> di ` set (y # ys)" for j
  proof -
    have "j \<noteq> nat (di y)" using that bd(1) by (auto simp: in_bounds_def)
    moreover have "D' ! j = ?D1 ! j" using that by (intro D'(4)) simp_all
    ultimately show ?thesis by simp
  qed
  show ?case using 1 2 3 4 by blast
qed

lemma euclid_unique:
  fixes r q r' q' k :: int
  assumes "0 \<le> r" "r < k" "0 \<le> r'" "r' < k" "r + q * k = r' + q' * k"
  shows "r = r' \<and> q = q'"
proof -
  have "r = (r + q * k) mod k" using assms(1,2) by simp
  also have "\<dots> = (r' + q' * k) mod k" by (simp only: assms(5))
  also have "\<dots> = r'" using assms(3,4) by simp
  finally have r: "r = r'" .
  then have "q * k = q' * k" using assms(5) by simp
  moreover have "k \<noteq> 0" using assms by linarith
  ultimately show ?thesis using r by simp
qed

lemma acc_index_inj:
  assumes "1 \<le> kColumn"
  shows "inj_on (\<lambda>(n, m). acc_index rm kRow kColumn off n m) ({0..kColumn - 1} \<times> {0..kRow - 1})"
proof (rule inj_onI, clarify)
  fix n m n' m'
  assume a: "n \<in> {0..kColumn - 1}" "m \<in> {0..kRow - 1}" "n' \<in> {0..kColumn - 1}" "m' \<in> {0..kRow - 1}"
    and e: "acc_index rm kRow kColumn off n m = acc_index rm kRow kColumn off n' m'"
  show "n = n' \<and> m = m'"
  proof (cases rm)
    case True
    then have "n + m * kColumn = n' + m' * kColumn" using e by (simp add: acc_index_def)
    then show ?thesis using euclid_unique [of n kColumn n' m m'] a by simp
  next
    case False
    then have "m + (n + off) * kRow = m' + (n' + off) * kRow" using e by (simp add: acc_index_def)
    then show ?thesis using euclid_unique [of m kRow m' "n + off" "n' + off"] a by simp
  qed
qed

lemma naive_loop_product:
  "naive_loop kRow kColumn body s
     = for_each (List.product [0..kColumn - 1] [0..kRow - 1]) (\<lambda>(n, m). body n m) s"
  unfolding naive_loop_def by (rule for_each_nested)

lemma driver_loop_product:
  fixes mma :: "'a \<Rightarrow> 'b \<Rightarrow> 'c \<Rightarrow> 'c" and C :: "'c list"
  assumes "1 \<le> kColumn"
  shows "serpentine_loop kRow kColumn (mma_body rm kRow kColumn mma A B off) C
           = for_each (List.product [0..kColumn - 1] [0..kRow - 1])
               (\<lambda>x. mma_call mma A B (acc_index rm kRow kColumn off (fst x) (snd x)) (snd x)
                      (b_index rm off (fst x))) C"
proof -
  have "kColumn \<noteq> 0" using assms by simp
  then have "serpentine_loop kRow kColumn (mma_body rm kRow kColumn mma A B off) C
               = naive_loop kRow kColumn (mma_body rm kRow kColumn mma A B off) C"
    by (rule serpentine_loop_eq_naive)
  also have "\<dots> = for_each (List.product [0..kColumn - 1] [0..kRow - 1])
                      (\<lambda>(n, m). mma_body rm kRow kColumn mma A B off n m) C"
    by (rule naive_loop_product)
  also have "\<dots> = for_each (List.product [0..kColumn - 1] [0..kRow - 1])
               (\<lambda>x. mma_call mma A B (acc_index rm kRow kColumn off (fst x) (snd x)) (snd x)
                      (b_index rm off (fst x))) C"
    by (rule for_each_cong) (simp add: mma_body_indices split: prod.splits)
  finally show ?thesis .
qed

lemma driver_loop_fail:
  fixes mma :: "'a \<Rightarrow> 'b \<Rightarrow> 'c \<Rightarrow> 'c" and C :: "'c list"
  assumes "1 \<le> kColumn" "0 \<le> n" "n < kColumn" "0 \<le> m" "m < kRow"
    and "\<not> (in_bounds (acc_index rm kRow kColumn off n m) C \<and> in_bounds m A
             \<and> in_bounds (b_index rm off n) B)"
  shows "serpentine_loop kRow kColumn (mma_body rm kRow kColumn mma A B off) C
           = Inl UndefinedBehavior"
  unfolding driver_loop_product [OF assms(1)]
  by (rule for_each_mma_call_fail [where x = "(n, m)"]) (use assms in simp_all)

lemma driver_loop_ok:
  fixes mma :: "'a \<Rightarrow> 'b \<Rightarrow> 'c \<Rightarrow> 'c" and C :: "'c list"
  assumes "1 \<le> kColumn"
    and bounds: "\<And>n m. 0 \<le> n \<Longrightarrow> n < kColumn \<Longrightarrow> 0 \<le> m \<Longrightarrow> m < kRow \<Longrightarrow>
            in_bounds (acc_index rm kRow kColumn off n m) C \<and> in_bounds m A
              \<and> in_bounds (b_index rm off n) B"
  shows "\<exists>D. serpentine_loop kRow kColumn (mma_body rm kRow kColumn mma A B off) C = Inr D
           \<and> length D = length C
           \<and> (\<forall>n m. 0 \<le> n \<and> n < kColumn \<and> 0 \<le> m \<and> m < kRow \<longrightarrow>
                 D ! nat (acc_index rm kRow kColumn off n m)
                   = mma (A ! nat m) (B ! nat (b_index rm off n))
                       (C ! nat (acc_index rm kRow kColumn off n m)))
           \<and> (\<forall>j. j < length C
                 \<and> int j \<notin> (\<lambda>(n, m). acc_index rm kRow kColumn off n m)
                              ` ({0..kColumn - 1} \<times> {0..kRow - 1})
                 \<longrightarrow> D ! j = C ! j)"
proof -
  let ?xs = "List.product [0..kColumn - 1] [0..kRow - 1]"
  let ?di = "\<lambda>x. acc_index rm kRow kColumn off (fst x) (snd x)"
  have s: "set ?xs = {0..kColumn - 1} \<times> {0..kRow - 1}" by simp
  have di: "?di = (\<lambda>(n, m). acc_index rm kRow kColumn off n m)" by (simp add: fun_eq_iff)
  have b: "\<And>x. x \<in> set ?xs \<Longrightarrow>
             in_bounds (?di x) C \<and> in_bounds (snd x) A \<and> in_bounds (b_index rm off (fst x)) B"
    using bounds by auto
  have inj: "inj_on ?di (set ?xs)"
    unfolding s di by (rule acc_index_inj [OF assms(1)])
  have dist: "distinct ?xs" by (simp add: distinct_product)
  obtain D where D: "for_each ?xs (\<lambda>x. mma_call mma A B (?di x) (snd x) (b_index rm off (fst x))) C = Inr D"
     "length D = length C"
     "\<And>x. x \<in> set ?xs \<Longrightarrow>
         D ! nat (?di x) = mma (A ! nat (snd x)) (B ! nat (b_index rm off (fst x))) (C ! nat (?di x))"
     "\<And>j. j < length C \<Longrightarrow> int j \<notin> ?di ` set ?xs \<Longrightarrow> D ! j = C ! j"
    using for_each_mma_call_ok [of ?xs ?di C snd A "\<lambda>x. b_index rm off (fst x)" B mma, OF b inj dist]
    by blast
  have 1: "serpentine_loop kRow kColumn (mma_body rm kRow kColumn mma A B off) C = Inr D"
    unfolding driver_loop_product [OF assms(1)] by (rule D(1))
  have 3: "D ! nat (acc_index rm kRow kColumn off n m)
             = mma (A ! nat m) (B ! nat (b_index rm off n)) (C ! nat (acc_index rm kRow kColumn off n m))"
    if "0 \<le> n \<and> n < kColumn \<and> 0 \<le> m \<and> m < kRow" for n m
    using D(3) [of "(n, m)"] that by simp
  have 4: "D ! j = C ! j"
    if "j < length C \<and> int j \<notin> (\<lambda>(n, m). acc_index rm kRow kColumn off n m)
                              ` ({0..kColumn - 1} \<times> {0..kRow - 1})" for j
    using D(4) [of j] that unfolding s di by simp
  show ?thesis using 1 D(2) 3 4 by blast
qed

lemma for_each_log:
  "for_each xs (\<lambda>x log. Inr (log @ g x)) log = Inr (log @ concat (map g xs))"
  by (induction xs arbitrary: log) simp_all

lemma visits_eq:
  "visits kRow kColumn
     = Inr (concat (map (\<lambda>n. map (\<lambda>m. (if n mod 2 \<noteq> 0 then kRow - 1 - m else m, n))
                                [0..kRow - 1]) [0..kColumn - 1]))"
proof -
  have inner: "for_each [0..kRow - 1]
                 (\<lambda>m log. Inr (log @ [(if n mod 2 \<noteq> 0 then kRow - 1 - m else m, n)])) log
               = Inr (log @ map (\<lambda>m. (if n mod 2 \<noteq> 0 then kRow - 1 - m else m, n)) [0..kRow - 1])"
    for n :: int and log :: "(int \<times> int) list"
    using for_each_log [of "[0..kRow - 1]"
        "\<lambda>m. [(if n mod 2 \<noteq> 0 then kRow - 1 - m else m, n)]" log]
    by (simp add: concat_map_singleton)
  show ?thesis
    unfolding visits_def serpentine_loop_def inner
    using for_each_log [of "[0..kColumn - 1]" _ "[]"] by simp
qed

lemma reverse_image: "(\<lambda>m. k - 1 - m) ` {0..k - 1} = {0..k - (1::int)}"
proof -
  have "(\<lambda>m. k - 1 - m) ` set [0..k - 1] = set (map (\<lambda>m. k - 1 - m) [0..k - 1])" by simp
  also have "\<dots> = set [0..k - 1]" by (simp only: map_reverse_upto set_rev)
  finally show ?thesis by simp
qed

lemma set_visits:
  assumes "visits kRow kColumn = Inr vs"
  shows "(m, n) \<in> set vs \<longleftrightarrow> 0 \<le> m \<and> m < kRow \<and> 0 \<le> n \<and> n < kColumn"
proof -
  have col: "(\<lambda>m. (if n' mod 2 \<noteq> 0 then kRow - 1 - m else m, n')) ` {0..kRow - 1}
               = (\<lambda>m. (m, n')) ` {0..kRow - 1}" for n' :: int
  proof (cases "n' mod 2 \<noteq> 0")
    case True
    have "(\<lambda>m. (kRow - 1 - m, n')) ` {0..kRow - 1}
            = (\<lambda>m. (m, n')) ` ((\<lambda>m. kRow - 1 - m) ` {0..kRow - 1})"
      by (simp only: image_image)
    also have "\<dots> = (\<lambda>m. (m, n')) ` {0..kRow - 1}" by (simp only: reverse_image)
    finally show ?thesis using True by simp
  next
    case False
    then show ?thesis by simp
  qed
  have vs: "vs = concat (map (\<lambda>n. map (\<lambda>m. (if n mod 2 \<noteq> 0 then kRow - 1 - m else m, n))
                                [0..kRow - 1]) [0..kColumn - 1])"
    using assms unfolding visits_eq by simp
  have "set vs = (\<Union>n' \<in> {0..kColumn - 1}.
                    (\<lambda>m. (if n' mod 2 \<noteq> 0 then kRow - 1 - m else m, n')) ` {0..kRow - 1})"
    unfolding vs by (simp add: image_image)
  also have "\<dots> = (\<Union>n' \<in> {0..kColumn - 1}. (\<lambda>m. (m, n')) ` {0..kRow - 1})"
    by (simp only: col)
  also have "\<dots> = {0..kRow - 1} \<times> {0..kColumn - 1}" by blast
  finally show ?thesis by auto
qed

lemma MmaTensorOp_call_loop:
  "MmaIterations cfg = Inr (kRow, kColumn) \<Longrightarrow> n_off cfg p = Inr off \<Longrightarrow>
     MmaTensorOp_call cfg mma A B C p
       = serpentine_loop kRow kColumn (mma_body (AccumulatorsInRowMajor cfg) kRow kColumn mma A B off) C"
  by (simp add: MmaTensorOp_call_def)

text \<open>
  Claim C2, as amended. For every pair \<open>(m_serpentine, n)\<close> that the loop nest visits, the
  elementary operator is invoked as \<open>D[idx] = mma(A[m_serpentine], B[b], D[idx])\<close>. With
  row-major accumulators \<open>idx = n + m_serpentine * cols\<close> and \<open>b = n\<close>: the partition offset
  enters neither index. Otherwise \<open>idx = m_serpentine + (n + n_off) * rows\<close> and
  \<open>b = n + n_off\<close>. When the run is defined, all three indices are inside their fragments,
  and the slot \<open>idx\<close> of the output holds \<open>mma(A[m_serpentine], B[b], C[idx])\<close>.
\<close>

theorem mma_invocation_per_visit:
  fixes mma :: "'a \<Rightarrow> 'b \<Rightarrow> 'c \<Rightarrow> 'c" and C :: "'c list"
  assumes "MmaIterations cfg = Inr (kRow, kColumn)"
    and "n_off cfg partitionN_idx = Inr off"
    and "visits kRow kColumn = Inr vs"
    and "(m_serpentine, n) \<in> set vs"
    and "idx = (if AccumulatorsInRowMajor cfg then n + m_serpentine * kColumn
                else m_serpentine + (n + off) * kRow)"
    and "b = (if AccumulatorsInRowMajor cfg then n else n + off)"
  shows "mma_body (AccumulatorsInRowMajor cfg) kRow kColumn mma A B off n m_serpentine
           = mma_call mma A B idx m_serpentine b
         \<and> (\<forall>D. MmaTensorOp_call cfg mma A B C partitionN_idx = Inr D \<longrightarrow>
               in_bounds idx C \<and> in_bounds m_serpentine A \<and> in_bounds b B
               \<and> D ! nat idx = mma (A ! nat m_serpentine) (B ! nat b) (C ! nat idx))"
proof (intro conjI allI impI)
  let ?rm = "AccumulatorsInRowMajor cfg"
  have idx: "idx = acc_index ?rm kRow kColumn off n m_serpentine"
    and b: "b = b_index ?rm off n"
    using assms(5,6) by (simp_all add: acc_index_def b_index_def)
  show "mma_body ?rm kRow kColumn mma A B off n m_serpentine = mma_call mma A B idx m_serpentine b"
    unfolding idx b by (rule mma_body_indices)
  have col: "1 \<le> kColumn" using assms(1) by (rule MmaIterations_kColumn_pos)
  have grid: "0 \<le> n" "n < kColumn" "0 \<le> m_serpentine" "m_serpentine < kRow"
    using set_visits [OF assms(3), of m_serpentine n] assms(4) by simp_all
  fix D assume run: "MmaTensorOp_call cfg mma A B C partitionN_idx = Inr D"
  then have loop: "serpentine_loop kRow kColumn (mma_body ?rm kRow kColumn mma A B off) C = Inr D"
    using MmaTensorOp_call_loop [OF assms(1,2), of mma A B C] by simp
  have all: "in_bounds (acc_index ?rm kRow kColumn off n' m') C \<and> in_bounds m' A
               \<and> in_bounds (b_index ?rm off n') B"
    if "0 \<le> n'" "n' < kColumn" "0 \<le> m'" "m' < kRow" for n' m'
  proof (rule ccontr)
    assume "\<not> ?thesis"
    then have "serpentine_loop kRow kColumn (mma_body ?rm kRow kColumn mma A B off) C
                 = Inl UndefinedBehavior"
      by (rule driver_loop_fail [OF col that])
    then show False using loop by simp
  qed
  then show "in_bounds idx C" "in_bounds m_serpentine A" "in_bounds b B"
    unfolding idx b using grid by simp_all
  from driver_loop_ok [of kColumn kRow ?rm off C A B mma, OF col all] loop
  show "D ! nat idx = mma (A ! nat m_serpentine) (B ! nat b) (C ! nat idx)"
    unfolding idx b using grid by auto
qed

text \<open>
  The claim as first stated put \<open>B[n + n_off]\<close> in both layouts. With row-major
  accumulators, two partitions and partition index 1 the offset is 1, and the driver
  multiplies by \<open>B[0]\<close>, not by \<open>B[1]\<close>.
\<close>

theorem mma_invocation_per_visit_witness:
  "MmaIterations \<lparr>Shape = \<lparr>kM = 16, kN = 16, kK = 8\<rparr>, ElementA = half_t, ElementB = half_t,
      OperatorShape = \<lparr>kM = 16, kN = 8, kK = 8\<rparr>, OperatorElementA = half_t,
      OperatorElementB = half_t, kPartitionsN = 2, AccumulatorsInRowMajor = False,
      FragmentB_kElements = 4, MmaOperandB_kElements = 2\<rparr> = Inr (1, 1)
   \<and> n_off \<lparr>Shape = \<lparr>kM = 16, kN = 16, kK = 8\<rparr>, ElementA = half_t, ElementB = half_t,
      OperatorShape = \<lparr>kM = 16, kN = 8, kK = 8\<rparr>, OperatorElementA = half_t,
      OperatorElementB = half_t, kPartitionsN = 2, AccumulatorsInRowMajor = False,
      FragmentB_kElements = 4, MmaOperandB_kElements = 2\<rparr> 1 = Inr 1
   \<and> visits 1 1 = Inr [(0, 0)]
   \<and> MmaTensorOp_call \<lparr>Shape = \<lparr>kM = 16, kN = 16, kK = 8\<rparr>, ElementA = half_t, ElementB = half_t,
      OperatorShape = \<lparr>kM = 16, kN = 8, kK = 8\<rparr>, OperatorElementA = half_t,
      OperatorElementB = half_t, kPartitionsN = 2, AccumulatorsInRowMajor = False,
      FragmentB_kElements = 4, MmaOperandB_kElements = 2\<rparr>
        (\<lambda>a b c. a * b + c) [1 :: int] [10, 20] [0, 0] 1 = Inr [0, 20]
   \<and> [0, 20 :: int] ! nat (0 + (0 + 1) * 1) = (\<lambda>a b c. a * b + c) ([1] ! nat 0) ([10, 20] ! nat (0 + 1)) ([0, 0] ! nat (0 + (0 + 1) * 1))"
proof -
  let ?cfg = "\<lparr>Shape = \<lparr>kM = 16, kN = 16, kK = 8\<rparr>, ElementA = half_t, ElementB = half_t,
      OperatorShape = \<lparr>kM = 16, kN = 8, kK = 8\<rparr>, OperatorElementA = half_t,
      OperatorElementB = half_t, kPartitionsN = 2, AccumulatorsInRowMajor = False,
      FragmentB_kElements = 4, MmaOperandB_kElements = 2\<rparr>"
  let ?mma = "\<lambda>a b c. a * b + (c :: int)"
  have g: "MmaIterations ?cfg = Inr (1, 1)"
    by (simp add: MmaIterations_def signed_modulo_int_def signed_divide_int_def)
  have o: "n_off ?cfg 1 = Inr 1"
    by (simp add: n_off_def int_mul_def int_div_def in_int32_def signed_divide_int_def)
  have v: "visits 1 1 = Inr [(0, 0)]"
    by (simp add: visits_def serpentine_loop_def upto_rec1)
  have m: "(0, 0) \<in> set [(0 :: int, 0 :: int)]" by simp
  have r: "MmaTensorOp_call ?cfg ?mma [1] [10, 20] [0, 0] 1 = Inr [0, 20]"
    by (simp add: MmaTensorOp_call_def g o serpentine_loop_def upto_rec1 mma_body_def
          mma_call_def in_bounds_def)
  have "[0, 20 :: int] ! nat (0 + (0 + 1) * 1)
          = ?mma ([1] ! nat 0) ([10, 20] ! nat (0 + 1)) ([0, 0] ! nat (0 + (0 + 1) * 1))"
    using mma_invocation_per_visit [OF g o v m, of "0 + (0 + 1) * 1" "0 + 1" ?mma "[1]" "[10, 20]" "[0, 0]"] r
    by simp
  then show ?thesis using g o v r by simp
qed

theorem mma_invocation_row_major_counterexample:
  "MmaIterations \<lparr>Shape = \<lparr>kM = 16, kN = 16, kK = 8\<rparr>, ElementA = half_t, ElementB = half_t,
      OperatorShape = \<lparr>kM = 16, kN = 8, kK = 8\<rparr>, OperatorElementA = half_t,
      OperatorElementB = half_t, kPartitionsN = 2, AccumulatorsInRowMajor = True,
      FragmentB_kElements = 4, MmaOperandB_kElements = 2\<rparr> = Inr (1, 1)
   \<and> n_off \<lparr>Shape = \<lparr>kM = 16, kN = 16, kK = 8\<rparr>, ElementA = half_t, ElementB = half_t,
      OperatorShape = \<lparr>kM = 16, kN = 8, kK = 8\<rparr>, OperatorElementA = half_t,
      OperatorElementB = half_t, kPartitionsN = 2, AccumulatorsInRowMajor = True,
      FragmentB_kElements = 4, MmaOperandB_kElements = 2\<rparr> 1 = Inr 1
   \<and> visits 1 1 = Inr [(0, 0)]
   \<and> MmaTensorOp_call \<lparr>Shape = \<lparr>kM = 16, kN = 16, kK = 8\<rparr>, ElementA = half_t, ElementB = half_t,
      OperatorShape = \<lparr>kM = 16, kN = 8, kK = 8\<rparr>, OperatorElementA = half_t,
      OperatorElementB = half_t, kPartitionsN = 2, AccumulatorsInRowMajor = True,
      FragmentB_kElements = 4, MmaOperandB_kElements = 2\<rparr>
        (\<lambda>a b c. a * b + c) [1 :: int] [10, 20] [0, 0] 1 = Inr [10, 0]
   \<and> [10, 0 :: int] ! nat (0 + 0 * 1)
       \<noteq> (\<lambda>a b c. a * b + c) ([1] ! nat 0) ([10, 20] ! nat (0 + 1)) ([0, 0] ! nat (0 + 0 * 1))
   \<and> mma_body True 1 1 (\<lambda>a b c. a * b + c) [1 :: int] [10, 20] 1 0 0 [0, 0]
       \<noteq> mma_call (\<lambda>a b c. a * b + c) [1 :: int] [10, 20] (0 + 0 * 1) 0 (0 + 1) [0, 0]"
  by (simp add: MmaTensorOp_call_def MmaIterations_def signed_modulo_int_def signed_divide_int_def
        n_off_def int_mul_def int_div_def in_int32_def visits_def
        serpentine_loop_def upto_rec1 mma_body_def mma_call_def in_bounds_def)

section \<open>Accumulator layouts\<close>

lemma grid_slot_bound:
  fixes r q k h :: int
  assumes "0 \<le> r" "r < k" "0 \<le> q" "q < h"
  shows "0 \<le> r + q * k \<and> r + q * k < h * k"
proof -
  have "(q + 1) * k \<le> h * k" using assms by (intro mult_right_mono) simp_all
  then have "r + q * k < h * k" using assms(2) by (simp add: algebra_simps)
  moreover have "0 \<le> q * k" using assms by simp
  ultimately show ?thesis using assms(1) by simp
qed

lemma transpose_slot_less:
  assumes "j < r * c"
  shows "transpose_slot r c j < c * r"
proof -
  have c: "0 < c" using assms by (cases c) simp_all
  have "j div c < r" using assms c by (simp add: less_mult_imp_div_less)
  moreover have "j mod c < c" using c by simp
  ultimately have 1: "j div c + (j mod c) * r < r + (j mod c) * r"
    and "j mod c + 1 \<le> c" by simp_all
  then have "(j mod c + 1) * r \<le> c * r" by (intro mult_right_mono) simp_all
  then show ?thesis using 1 unfolding transpose_slot_def by (simp add: algebra_simps)
qed

lemma transpose_slot_inverse:
  assumes "j < r * c"
  shows "transpose_slot c r (transpose_slot r c j) = j"
proof -
  have c: "0 < c" using assms by (cases c) simp_all
  have a: "j div c < r" using assms c by (simp add: less_mult_imp_div_less)
  then show ?thesis unfolding transpose_slot_def by simp
qed

lemma transpose_slot_bij: "bij_betw (transpose_slot r c) {..<r * c} {..<r * c}"
proof (rule bij_betw_byWitness [where f' = "transpose_slot c r"])
  show "\<forall>j\<in>{..<r * c}. transpose_slot c r (transpose_slot r c j) = j"
    by (simp add: transpose_slot_inverse)
  show "\<forall>j\<in>{..<r * c}. transpose_slot r c (transpose_slot c r j) = j"
    using transpose_slot_inverse [of _ c r] by (simp add: mult.commute)
  show "transpose_slot r c ` {..<r * c} \<subseteq> {..<r * c}"
    using transpose_slot_less [of _ r c] by (auto simp: mult.commute)
  show "transpose_slot c r ` {..<r * c} \<subseteq> {..<r * c}"
    using transpose_slot_less [of _ c r] by (auto simp: mult.commute)
qed

lemma MmaIterations_layout [simp]:
  "MmaIterations (cfg\<lparr>AccumulatorsInRowMajor := rm\<rparr>) = MmaIterations cfg"
  by (simp add: MmaIterations_def)

lemma n_off_layout [simp]:
  "n_off (cfg\<lparr>AccumulatorsInRowMajor := rm\<rparr>) p = n_off cfg p"
  by (simp add: n_off_def split: sum.splits)

text \<open>
  Claim C3, as amended. Take a configuration with grid \<open>kRow\<close> by \<open>kColumn\<close>, partition
  offset 0, fragments \<open>A\<close> and \<open>B\<close> that cover the grid, and accumulator fragments of
  exactly \<open>kRow * kColumn\<close> slots. If the row-major run is given the accumulator in
  row-major order and the column-major run the same accumulator in column-major order
  (slot \<open>n + m * kColumn\<close> of the one equals slot \<open>m + n * kRow\<close> of the other), both runs
  are defined, the tile \<open>(m, n)\<close> of the row-major output at \<open>n + m * kColumn\<close> equals that
  of the column-major output at \<open>m + n * kRow\<close>, and the two outputs hold the same multiset
  of values.
\<close>

theorem layout_equivalence:
  fixes mma :: "'a \<Rightarrow> 'b \<Rightarrow> 'c \<Rightarrow> 'c" and Cr Cc :: "'c list"
  assumes grid: "MmaIterations cfg = Inr (kRow, kColumn)"
    and off: "n_off cfg partitionN_idx = Inr 0"
    and row: "0 \<le> kRow"
    and lenr: "length Cr = nat (kRow * kColumn)"
    and lenc: "length Cc = nat (kRow * kColumn)"
    and same: "\<And>m n. 0 \<le> m \<Longrightarrow> m < kRow \<Longrightarrow> 0 \<le> n \<Longrightarrow> n < kColumn \<Longrightarrow>
                 Cr ! nat (n + m * kColumn) = Cc ! nat (m + n * kRow)"
    and lenA: "kRow \<le> int (length A)"
    and lenB: "kColumn \<le> int (length B)"
  shows "\<exists>Dr Dc.
           MmaTensorOp_call (cfg\<lparr>AccumulatorsInRowMajor := True\<rparr>) mma A B Cr partitionN_idx = Inr Dr
         \<and> MmaTensorOp_call (cfg\<lparr>AccumulatorsInRowMajor := False\<rparr>) mma A B Cc partitionN_idx = Inr Dc
         \<and> (\<forall>m n. 0 \<le> m \<and> m < kRow \<and> 0 \<le> n \<and> n < kColumn \<longrightarrow>
               Dr ! nat (n + m * kColumn) = Dc ! nat (m + n * kRow))
         \<and> mset Dr = mset Dc"
proof -
  have col: "1 \<le> kColumn" using grid by (rule MmaIterations_kColumn_pos)
  define r c where "r = nat kRow" and "c = nat kColumn"
  have rc: "int r = kRow" "int c = kColumn" using row col by (simp_all add: r_def c_def)
  have len: "length Cr = r * c" "length Cc = r * c"
    using lenr lenc row col by (simp_all add: r_def c_def nat_mult_distrib)
  have br: "in_bounds (acc_index True kRow kColumn 0 n m) Cr \<and> in_bounds m A
              \<and> in_bounds (b_index True 0 n) B"
    if "0 \<le> n" "n < kColumn" "0 \<le> m" "m < kRow" for n m
    using grid_slot_bound [OF that] that lenA lenB lenr row col
    by (simp add: in_bounds_def acc_index_def b_index_def mult.commute)
  have bc: "in_bounds (acc_index False kRow kColumn 0 n m) Cc \<and> in_bounds m A
              \<and> in_bounds (b_index False 0 n) B"
    if "0 \<le> n" "n < kColumn" "0 \<le> m" "m < kRow" for n m
    using grid_slot_bound [OF that(3,4,1,2)] that lenA lenB lenc row col
    by (simp add: in_bounds_def acc_index_def b_index_def mult.commute)
  obtain Dr where Dr:
    "serpentine_loop kRow kColumn (mma_body True kRow kColumn mma A B 0) Cr = Inr Dr"
    "length Dr = length Cr"
    "\<And>n m. 0 \<le> n \<and> n < kColumn \<and> 0 \<le> m \<and> m < kRow \<Longrightarrow>
       Dr ! nat (acc_index True kRow kColumn 0 n m)
         = mma (A ! nat m) (B ! nat (b_index True 0 n)) (Cr ! nat (acc_index True kRow kColumn 0 n m))"
    using driver_loop_ok [of kColumn kRow True 0 Cr A B mma, OF col br] by blast
  obtain Dc where Dc:
    "serpentine_loop kRow kColumn (mma_body False kRow kColumn mma A B 0) Cc = Inr Dc"
    "length Dc = length Cc"
    "\<And>n m. 0 \<le> n \<and> n < kColumn \<and> 0 \<le> m \<and> m < kRow \<Longrightarrow>
       Dc ! nat (acc_index False kRow kColumn 0 n m)
         = mma (A ! nat m) (B ! nat (b_index False 0 n)) (Cc ! nat (acc_index False kRow kColumn 0 n m))"
    using driver_loop_ok [of kColumn kRow False 0 Cc A B mma, OF col bc] by blast
  have 1: "MmaTensorOp_call (cfg\<lparr>AccumulatorsInRowMajor := True\<rparr>) mma A B Cr partitionN_idx = Inr Dr"
    using Dr(1) by (simp add: MmaTensorOp_call_def grid off)
  have 2: "MmaTensorOp_call (cfg\<lparr>AccumulatorsInRowMajor := False\<rparr>) mma A B Cc partitionN_idx = Inr Dc"
    using Dc(1) by (simp add: MmaTensorOp_call_def grid off)
  have 3: "Dr ! nat (n + m * kColumn) = Dc ! nat (m + n * kRow)"
    if "0 \<le> m \<and> m < kRow \<and> 0 \<le> n \<and> n < kColumn" for m n
    using Dr(3) [of n m] Dc(3) [of n m] same [of m n] that
    by (simp add: acc_index_def b_index_def)
  have "Dr = map (\<lambda>j. Dc ! transpose_slot r c j) [0..<length Dc]"
  proof (rule nth_equalityI)
    show "length Dr = length (map (\<lambda>j. Dc ! transpose_slot r c j) [0..<length Dc])"
      using Dr(2) Dc(2) len by simp
  next
    fix j assume "j < length Dr"
    then have j: "j < r * c" using Dr(2) len by simp
    have c: "0 < c" using col by (simp add: c_def)
    have m: "j div c < r" using j c by (simp add: less_mult_imp_div_less)
    have n: "j mod c < c" using c by simp
    have "Dr ! nat (int (j mod c) + int (j div c) * kColumn)
            = Dc ! nat (int (j div c) + int (j mod c) * kRow)"
      using m n rc by (intro 3) (simp flip: rc)
    moreover have "nat (int (j mod c) + int (j div c) * kColumn) = j"
      by (simp flip: rc add: nat_add_distrib nat_mult_distrib)
    moreover have "nat (int (j div c) + int (j mod c) * kRow) = transpose_slot r c j"
      by (simp flip: rc add: nat_add_distrib nat_mult_distrib transpose_slot_def)
    ultimately have "Dr ! j = Dc ! transpose_slot r c j" by simp
    then show "Dr ! j = map (\<lambda>j. Dc ! transpose_slot r c j) [0..<length Dc] ! j"
      using j Dc(2) len by simp
  qed
  moreover have "mset (map (\<lambda>j. Dc ! transpose_slot r c j) [0..<length Dc]) = mset Dc"
    by (rule mset_map_nth_bij) (simp add: Dc(2) len transpose_slot_bij)
  ultimately have 4: "mset Dr = mset Dc" by simp
  show ?thesis using 1 2 3 4 by blast
qed

theorem layout_equivalence_witness:
  "MmaIterations \<lparr>Shape = \<lparr>kM = 32, kN = 16, kK = 8\<rparr>, ElementA = half_t, ElementB = half_t,
      OperatorShape = \<lparr>kM = 16, kN = 8, kK = 8\<rparr>, OperatorElementA = half_t,
      OperatorElementB = half_t, kPartitionsN = 1, AccumulatorsInRowMajor = False,
      FragmentB_kElements = 4, MmaOperandB_kElements = 2\<rparr> = Inr (2, 2)
   \<and> n_off \<lparr>Shape = \<lparr>kM = 32, kN = 16, kK = 8\<rparr>, ElementA = half_t, ElementB = half_t,
      OperatorShape = \<lparr>kM = 16, kN = 8, kK = 8\<rparr>, OperatorElementA = half_t,
      OperatorElementB = half_t, kPartitionsN = 1, AccumulatorsInRowMajor = False,
      FragmentB_kElements = 4, MmaOperandB_kElements = 2\<rparr> 0 = Inr 0
   \<and> MmaTensorOp_call \<lparr>Shape = \<lparr>kM = 32, kN = 16, kK = 8\<rparr>, ElementA = half_t, ElementB = half_t,
      OperatorShape = \<lparr>kM = 16, kN = 8, kK = 8\<rparr>, OperatorElementA = half_t,
      OperatorElementB = half_t, kPartitionsN = 1, AccumulatorsInRowMajor = True,
      FragmentB_kElements = 4, MmaOperandB_kElements = 2\<rparr>
        (\<lambda>a b c. a * b + c) [1, 2 :: int] [1, 10] [0, 100, 0, 0] 0 = Inr [1, 110, 2, 20]
   \<and> MmaTensorOp_call \<lparr>Shape = \<lparr>kM = 32, kN = 16, kK = 8\<rparr>, ElementA = half_t, ElementB = half_t,
      OperatorShape = \<lparr>kM = 16, kN = 8, kK = 8\<rparr>, OperatorElementA = half_t,
      OperatorElementB = half_t, kPartitionsN = 1, AccumulatorsInRowMajor = False,
      FragmentB_kElements = 4, MmaOperandB_kElements = 2\<rparr>
        (\<lambda>a b c. a * b + c) [1, 2 :: int] [1, 10] [0, 0, 100, 0] 0 = Inr [1, 2, 110, 20]
   \<and> mset [1, 110, 2, 20 :: int] = mset [1, 2, 110, 20]"
proof -
  let ?cfg = "\<lparr>Shape = \<lparr>kM = 32, kN = 16, kK = 8\<rparr>, ElementA = half_t, ElementB = half_t,
      OperatorShape = \<lparr>kM = 16, kN = 8, kK = 8\<rparr>, OperatorElementA = half_t,
      OperatorElementB = half_t, kPartitionsN = 1, AccumulatorsInRowMajor = False,
      FragmentB_kElements = 4, MmaOperandB_kElements = 2\<rparr>"
  let ?mma = "\<lambda>a b c. a * b + (c :: int)"
  let ?Cr = "[0, 100, 0, 0 :: int]" and ?Cc = "[0, 0, 100, 0 :: int]"
  have g: "MmaIterations ?cfg = Inr (2, 2)"
    by (simp add: MmaIterations_def signed_modulo_int_def signed_divide_int_def)
  have o: "n_off ?cfg 0 = Inr 0"
    by (simp add: n_off_def int_mul_def int_div_def in_int32_def)
  have same: "?Cr ! nat (n + m * 2) = ?Cc ! nat (m + n * 2)"
    if "0 \<le> m" "m < 2" "0 \<le> n" "n < 2" for m n :: int
  proof -
    have "m = 0 \<or> m = 1" "n = 0 \<or> n = 1" using that by auto
    then show ?thesis by auto
  qed
  have u: "[0 .. 1 :: int] = [0, 1]" by (simp add: upto_rec1)
  have r: "MmaTensorOp_call (?cfg\<lparr>AccumulatorsInRowMajor := True\<rparr>) ?mma [1, 2] [1, 10] ?Cr 0
             = Inr [1, 110, 2, 20]"
    by (simp add: MmaTensorOp_call_def MmaIterations_def signed_modulo_int_def
          signed_divide_int_def n_off_def int_mul_def int_div_def in_int32_def
          serpentine_loop_def u mma_body_def mma_call_def in_bounds_def numeral_eq_Suc)
  have c: "MmaTensorOp_call (?cfg\<lparr>AccumulatorsInRowMajor := False\<rparr>) ?mma [1, 2] [1, 10] ?Cc 0
             = Inr [1, 2, 110, 20]"
    by (simp add: MmaTensorOp_call_def MmaIterations_def signed_modulo_int_def
          signed_divide_int_def n_off_def int_mul_def int_div_def in_int32_def
          serpentine_loop_def u mma_body_def mma_call_def in_bounds_def numeral_eq_Suc)
  have "mset [1, 110, 2, 20 :: int] = mset [1, 2, 110, 20]"
    using layout_equivalence [of ?cfg 2 2 0 ?Cr ?Cc "[1, 2]" "[1, 10]" ?mma, OF g o _ _ _ same] r c
    by simp
  then show ?thesis using g o r c by simp
qed

text \<open>
  The claim as first stated gave both runs the same fragment \<open>C\<close> and any partition
  index. On a 2 by 2 grid with \<open>C = [0, 0, 100, 0]\<close> the value 100 is added to different
  products in the two layouts; and with two partitions and partition index 1 the
  row-major run multiplies by \<open>B[0]\<close> where the column-major run multiplies by \<open>B[1]\<close>.
\<close>

theorem layout_equivalence_counterexample:
  "MmaTensorOp_call \<lparr>Shape = \<lparr>kM = 32, kN = 16, kK = 8\<rparr>, ElementA = half_t, ElementB = half_t,
      OperatorShape = \<lparr>kM = 16, kN = 8, kK = 8\<rparr>, OperatorElementA = half_t,
      OperatorElementB = half_t, kPartitionsN = 1, AccumulatorsInRowMajor = True,
      FragmentB_kElements = 4, MmaOperandB_kElements = 2\<rparr>
        (\<lambda>a b c. a * b + c) [1, 2 :: int] [1, 10] [0, 0, 100, 0] 0 = Inr [1, 10, 102, 20]
   \<and> MmaTensorOp_call \<lparr>Shape = \<lparr>kM = 32, kN = 16, kK = 8\<rparr>, ElementA = half_t, ElementB = half_t,
      OperatorShape = \<lparr>kM = 16, kN = 8, kK = 8\<rparr>, OperatorElementA = half_t,
      OperatorElementB = half_t, kPartitionsN = 1, AccumulatorsInRowMajor = False,
      FragmentB_kElements = 4, MmaOperandB_kElements = 2\<rparr>
        (\<lambda>a b c. a * b + c) [1, 2 :: int] [1, 10] [0, 0, 100, 0] 0 = Inr [1, 2, 110, 20]
   \<and> mset [1, 10, 102, 20 :: int] \<noteq> mset [1, 2, 110, 20]
   \<and> MmaTensorOp_call \<lparr>Shape = \<lparr>kM = 16, kN = 16, kK = 8\<rparr>, ElementA = half_t, ElementB = half_t,
      OperatorShape = \<lparr>kM = 16, kN = 8, kK = 8\<rparr>, OperatorElementA = half_t,
      OperatorElementB = half_t, kPartitionsN = 2, AccumulatorsInRowMajor = True,
      FragmentB_kElements = 4, MmaOperandB_kElements = 2\<rparr>
        (\<lambda>a b c. a * b + c) [1 :: int] [10, 20] [0, 0] 1 = Inr [10, 0]
   \<and> MmaTensorOp_call \<lparr>Shape = \<lparr>kM = 16, kN = 16, kK = 8\<rparr>, ElementA = half_t, ElementB = half_t,
      OperatorShape = \<lparr>kM = 16, kN = 8, kK = 8\<rparr>, OperatorElementA = half_t,
      OperatorElementB = half_t, kPartitionsN = 2, AccumulatorsInRowMajor = False,
      FragmentB_kElements = 4, MmaOperandB_kElements = 2\<rparr>
        (\<lambda>a b c. a * b + c) [1 :: int] [10, 20] [0, 0] 1 = Inr [0, 20]
   \<and> mset [10, 0 :: int] \<noteq> mset [0, 20]"
proof -
  have u: "[0 .. 1 :: int] = [0, 1]" by (simp add: upto_rec1)
  have a: "mset [1, 10, 102, 20 :: int] \<noteq> mset [1, 2, 110, 20]"
  proof
    assume "mset [1, 10, 102, 20 :: int] = mset [1, 2, 110, 20]"
    then have "count (mset [1, 10, 102, 20 :: int]) 102 = count (mset [1, 2, 110, 20 :: int]) 102"
      by (simp only:)
    then show False by simp
  qed
  have b: "mset [10, 0 :: int] \<noteq> mset [0, 20]"
  proof
    assume "mset [10, 0 :: int] = mset [0, 20]"
    then have "count (mset [10, 0 :: int]) 10 = count (mset [0, 20 :: int]) 10"
      by (simp only:)
    then show False by simp
  qed
  show ?thesis using a b
    by (simp add: MmaTensorOp_call_def MmaIterations_def signed_modulo_int_def signed_divide_int_def
        n_off_def int_mul_def int_div_def in_int32_def
        serpentine_loop_def u upto_rec1 mma_body_def mma_call_def in_bounds_def numeral_eq_Suc)
qed

section \<open>The transform of the operands\<close>

lemma take_two_halves: "take h xs @ take h (drop h xs) = take (2 * h) xs"
proof -
  have "take (h + h) xs = take h xs @ take h (drop h xs)" by (rule take_add)
  then show ?thesis by (simp add: mult_2)
qed

text \<open>
  Claim C5, as amended. The transform applies the conversion rule \<^verbatim>\<open>ConvertAndPack\<close>
  (identity, general conversion, float-to-half repacking) to \<open>A\<close> only. \<open>B\<close> is split in
  two halves of \<^verbatim>\<open>FragmentB::kElements / 2\<close> elements, and each half goes through the
  plain element-wise converter: element \<open>i\<close> of the result is the converted element \<open>i\<close> of
  \<open>B\<close>, with no repacking, also from float to half; a last odd slot is left as it was.
\<close>

theorem transform_converts_A_packed_B_plain:
  "MmaTensorOp_transform cvt pref cfg dst_B A B =
     (case ConvertAndPack cvt (OperatorElementA cfg) (ElementA cfg)
             (pref (OperatorElementA cfg) (ElementA cfg)) A of
        Inl e \<Rightarrow> Inl e
      | Inr dst_A \<Rightarrow>
          Inr (dst_A,
               map (cvt (OperatorElementB cfg) (ElementB cfg)
                      (pref (OperatorElementB cfg) (ElementB cfg)))
                   (take (2 * (length B div 2)) B)
                 @ drop (2 * (length B div 2)) dst_B))"
  by (simp add: MmaTensorOp_transform_def NumericArrayConverter_def Let_def
        take_two_halves [symmetric] split: sum.splits)

text \<open>
  The claim as first stated has the same rule, repacking included, govern both operands.
  For a \<open>B\<close> fragment of eight floats converted to half the transform keeps the order,
  where the rule applied to each half would swap the two middle elements of every four.
\<close>

theorem transform_B_counterexample:
  "MmaTensorOp_transform (\<lambda>T S r x. x) (\<lambda>T S. ())
      \<lparr>Shape = \<lparr>kM = 16, kN = 16, kK = 8\<rparr>, ElementA = half_t, ElementB = float,
       OperatorShape = \<lparr>kM = 16, kN = 8, kK = 8\<rparr>, OperatorElementA = half_t,
       OperatorElementB = half_t, kPartitionsN = 1, AccumulatorsInRowMajor = False,
       FragmentB_kElements = 8, MmaOperandB_kElements = 4\<rparr>
      [0, 0, 0, 0, 0, 0, 0, 0] [21, 22 :: int] [1, 2, 3, 4, 5, 6, 7, 8]
     = Inr ([21, 22], [1, 2, 3, 4, 5, 6, 7, 8])
   \<and> spec_transform (\<lambda>T S r x. x) (\<lambda>T S. ())
      \<lparr>Shape = \<lparr>kM = 16, kN = 16, kK = 8\<rparr>, ElementA = half_t, ElementB = float,
       OperatorShape = \<lparr>kM = 16, kN = 8, kK = 8\<rparr>, OperatorElementA = half_t,
       OperatorElementB = half_t, kPartitionsN = 1, AccumulatorsInRowMajor = False,
       FragmentB_kElements = 8, MmaOperandB_kElements = 4\<rparr>
      [0, 0, 0, 0, 0, 0, 0, 0] [21, 22 :: int] [1, 2, 3, 4, 5, 6, 7, 8]
     = Inr ([21, 22], [1, 3, 2, 4, 5, 7, 6, 8])"
  by (simp add: MmaTensorOp_transform_def spec_transform_def ConvertAndPack_def
        NumericArrayConverter_def repack_def repack_body_def repack_index_def upt_rec)

section \<open>Partitions along N\<close>

lemma concat_partitions_ok:
  "(\<And>p. p \<in> set ps \<Longrightarrow> run p = Inr (t p)) \<Longrightarrow>
     concat_partitions run ps = Inr (concat (map t ps))"
  by (induction ps) simp_all

lemma map_shift_upto: "map (\<lambda>n. n + a) [i..j] = [i + a..j + a]"
proof (rule nth_equalityI)
  show "length (map (\<lambda>n. n + a) [i..j]) = length [i + a..j + a]" by simp
next
  fix k assume "k < length (map (\<lambda>n. n + a) [i..j])"
  then have k: "i + int k \<le> j" by simp
  then have "[i..j] ! k = i + int k" by (rule nth_upto)
  moreover have "[i + a..j + a] ! k = i + a + int k" using k by (intro nth_upto) simp
  ultimately show "map (\<lambda>n. n + a) [i..j] ! k = [i + a..j + a] ! k" using k by simp
qed

lemma upto_blocks:
  assumes "0 \<le> c"
  shows "concat (map (\<lambda>p. map (\<lambda>n. f (n + p * c)) [0..c - 1]) [0..int k - 1])
           = map f [0..int k * c - 1]"
proof (induction k)
  case 0
  then show ?case by simp
next
  case (Suc k)
  have "[0..int (Suc k) - 1] = [0..int k - 1] @ [int k]"
    using upto_rec2 [of 0 "int k"] by simp
  then have "concat (map (\<lambda>p. map (\<lambda>n. f (n + p * c)) [0..c - 1]) [0..int (Suc k) - 1])
          = map f [0..int k * c - 1] @ map (\<lambda>n. f (n + int k * c)) [0..c - 1]"
    using Suc.IH by simp
  also have "map (\<lambda>n. f (n + int k * c)) [0..c - 1] = map f (map (\<lambda>n. n + int k * c) [0..c - 1])"
    by (simp add: comp_def)
  also have "map (\<lambda>n. n + int k * c) [0..c - 1] = [int k * c..int (Suc k) * c - 1]"
    by (simp add: map_shift_upto algebra_simps)
  also have "map f [0..int k * c - 1] @ map f [int k * c..int (Suc k) * c - 1]
               = map f ([0..int k * c - 1] @ [int k * c..int (Suc k) * c - 1])"
    by simp
  also have "[0..int k * c - 1] @ [int k * c..int (Suc k) * c - 1] = [0..int (Suc k) * c - 1]"
  proof (cases "int k * c = 0")
    case True
    have e: "[0..int k * c - 1] = []" by (simp add: True)
    have "[int k * c..int (Suc k) * c - 1] = [0..int (Suc k) * c - 1]" by (simp only: True)
    then show ?thesis by (simp only: e append_Nil)
  next
    case False
    moreover have "0 \<le> int k * c" using assms by simp
    ultimately have "0 \<le> int k * c - 1" by linarith
    moreover have "int k * c - 1 \<le> int (Suc k) * c - 1" using assms by (simp add: algebra_simps)
    ultimately show ?thesis
      using upto_split2 [of 0 "int k * c - 1" "int (Suc k) * c - 1"] by simp
  qed
  finally show ?case .
qed

lemma partition_tile_column_major:
  fixes mma :: "'a \<Rightarrow> 'b \<Rightarrow> 'c \<Rightarrow> 'c" and C :: "'c list"
  assumes grid: "MmaIterations cfg = Inr (kRow, kColumn)"
    and layout: "\<not> AccumulatorsInRowMajor cfg"
    and off: "n_off cfg p = Inr off" "0 \<le> off"
    and lens: "kRow \<le> int (length A)" "off + kColumn \<le> int (length B)"
              "kRow * (off + kColumn) \<le> int (length C)"
  shows "partition_tile cfg mma A B C p
           = Inr (map (\<lambda>n. map (\<lambda>m. mma (A ! nat m) (B ! nat (n + off))
                                      (C ! nat (m + (n + off) * kRow))) [0..kRow - 1])
                    [0..kColumn - 1])"
proof -
  have col: "1 \<le> kColumn" using grid by (rule MmaIterations_kColumn_pos)
  have b: "in_bounds (acc_index False kRow kColumn off n m) C \<and> in_bounds m A
              \<and> in_bounds (b_index False off n) B"
    if "0 \<le> n" "n < kColumn" "0 \<le> m" "m < kRow" for n m
  proof -
    have k: "0 \<le> n + off" "n + off < off + kColumn" using that off(2) by simp_all
    have "0 \<le> m + (n + off) * kRow \<and> m + (n + off) * kRow < (off + kColumn) * kRow"
      by (rule grid_slot_bound) (use that k in simp_all)
    then show ?thesis using that k lens
      by (simp add: in_bounds_def acc_index_def b_index_def mult.commute)
  qed
  obtain D where D:
    "serpentine_loop kRow kColumn (mma_body False kRow kColumn mma A B off) C = Inr D"
    "\<And>n m. 0 \<le> n \<and> n < kColumn \<and> 0 \<le> m \<and> m < kRow \<Longrightarrow>
       D ! nat (acc_index False kRow kColumn off n m)
         = mma (A ! nat m) (B ! nat (b_index False off n))
             (C ! nat (acc_index False kRow kColumn off n m))"
    using driver_loop_ok [of kColumn kRow False off C A B mma, OF col b] by blast
  have run: "MmaTensorOp_call cfg mma A B C p = Inr D"
    using D(1) layout by (simp add: MmaTensorOp_call_def grid off(1))
  have "acc_tile False kRow kColumn off D
          = map (\<lambda>n. map (\<lambda>m. mma (A ! nat m) (B ! nat (n + off))
                                      (C ! nat (m + (n + off) * kRow))) [0..kRow - 1])
                    [0..kColumn - 1]"
    unfolding acc_tile_def
  proof (intro map_cong refl)
    fix n m assume "n \<in> set [0..kColumn - 1]" "m \<in> set [0..kRow - 1]"
    then have "0 \<le> n \<and> n < kColumn \<and> 0 \<le> m \<and> m < kRow" by simp
    then show "D ! nat (acc_index False kRow kColumn off n m)
                 = mma (A ! nat m) (B ! nat (n + off)) (C ! nat (m + (n + off) * kRow))"
      using D(2) [of n m] by (simp add: acc_index_def b_index_def)
  qed
  then show ?thesis using layout by (simp add: partition_tile_def grid off(1) run)
qed

lemma n_off_partition:
  assumes P: "0 < kPartitionsN cfg" "kPartitionsN cfg dvd N"
    and fragB: "FragmentB_kElements cfg = N * MmaOperandB_kElements cfg"
               "0 < MmaOperandB_kElements cfg"
    and N: "0 \<le> N"
    and small: "kPartitionsN cfg * FragmentB_kElements cfg < 2 ^ 31"
    and p: "0 \<le> p" "p < kPartitionsN cfg"
  shows "n_off cfg p = Inr (p * (N div kPartitionsN cfg))"
proof -
  let ?P = "kPartitionsN cfg" and ?F = "FragmentB_kElements cfg" and ?O = "MmaOperandB_kElements cfg"
  have F0: "0 \<le> ?F" using fragB N by simp
  have pF: "0 \<le> p * ?F" using p F0 by simp
  have "p * ?F \<le> ?P * ?F" using p F0 by (intro mult_right_mono) simp_all
  then have pF2: "p * ?F < 2 ^ 31" using small by linarith
  have pN: "0 \<le> p * N" using p N by simp
  have "p * N * 1 \<le> p * N * ?O" using pN fragB(2) by (intro mult_left_mono) simp_all
  then have pN2: "p * N < 2 ^ 31" using pF2 fragB(1) by (simp add: algebra_simps)
  have q: "p * N div ?P = p * (N div ?P)" using P(2) by (simp add: div_mult_swap)
  have "0 \<le> N div ?P" using N P(1) by (simp add: pos_imp_zdiv_nonneg_iff)
  then have pq: "0 \<le> p * (N div ?P)" using p by simp
  have "N div ?P \<le> N" using zdiv_mono2 [of N 1 ?P] N P(1) by simp
  then have "p * (N div ?P) \<le> p * N"
    using p by (intro mult_left_mono) simp_all
  then have pq2: "p * (N div ?P) < 2 ^ 31" using pN2 by linarith
  have 1: "int_mul p ?F = Inr (p * ?F)" using pF pF2 by (simp add: int_mul_def in_int32_def)
  have "(p * ?F) sdiv ?O = p * N"
    using pF fragB by (simp add: sdiv_nonneg)
  then have 2: "int_div (p * ?F) ?O = Inr (p * N)"
    using pN pN2 fragB(2) by (simp add: int_div_def in_int32_def)
  have "(p * N) sdiv ?P = p * (N div ?P)" using pN P(1) q by (simp add: sdiv_nonneg)
  then have 3: "int_div (p * N) ?P = Inr (p * (N div ?P))"
    using pq pq2 P(1) by (simp add: int_div_def in_int32_def)
  show ?thesis by (simp add: n_off_def 1 2 3)
qed

lemma MmaIterations_partitions:
  assumes grid: "MmaIterations cfg = Inr (kRow, kColumn)"
    and N: "N = kN (Shape cfg) sdiv kN (OperatorShape cfg)"
    and P: "0 < kPartitionsN cfg" "kPartitionsN cfg dvd N" "0 < N"
  shows "kColumn = N div kPartitionsN cfg"
    and "kPartitionsN cfg * kColumn = N"
    and "MmaIterations (cfg\<lparr>kPartitionsN := 1\<rparr>) = Inr (kRow, N)"
proof -
  let ?P = "kPartitionsN cfg"
  have s: "N sdiv ?P = N div ?P" using P by (simp add: sdiv_nonneg)
  have "?P \<le> N" using P by (simp add: zdvd_imp_le)
  then have pos: "0 < N div ?P" using P(1) by (simp add: pos_imp_zdiv_pos_iff)
  show c: "kColumn = N div ?P"
    using grid s pos unfolding MmaIterations_def N [symmetric]
    by (simp split: if_splits)
  show "?P * kColumn = N" using c P(2) by simp
  show "MmaIterations (cfg\<lparr>kPartitionsN := 1\<rparr>) = Inr (kRow, N)"
    using grid P(3) unfolding MmaIterations_def
    by (simp add: N [symmetric] split: if_splits)
qed

text \<open>
  Claim C7, as amended. Take column-major accumulators, a number \<open>P \<ge> 1\<close> of partitions
  that divides the number \<open>N = Shape.N / ElemShape.N\<close> of operator columns, a \<open>B\<close> fragment
  of \<open>N\<close> operands (with \<open>P\<close> times its element count below \<open>2^31\<close>), and fragments that
  cover the full grid. Then the single run with one partition is defined, every run with
  \<open>P\<close> partitions and a partition index from \<open>0\<close> to \<open>P - 1\<close> is defined, and the columns
  computed by these runs, concatenated in the order of the partition indices, are the
  columns computed by the single run.
\<close>

theorem partition_concatenation:
  fixes mma :: "'a \<Rightarrow> 'b \<Rightarrow> 'c \<Rightarrow> 'c" and C :: "'c list"
  assumes grid: "MmaIterations cfg = Inr (kRow, kColumn)"
    and layout: "\<not> AccumulatorsInRowMajor cfg"
    and N: "N = kN (Shape cfg) sdiv kN (OperatorShape cfg)"
    and P: "0 < kPartitionsN cfg" "kPartitionsN cfg dvd N" "0 < N"
    and fragB: "FragmentB_kElements cfg = N * MmaOperandB_kElements cfg"
               "0 < MmaOperandB_kElements cfg"
    and small: "kPartitionsN cfg * FragmentB_kElements cfg < 2 ^ 31"
    and lens: "kRow \<le> int (length A)" "N \<le> int (length B)" "kRow * N \<le> int (length C)"
  shows "\<exists>tile. partition_tile (cfg\<lparr>kPartitionsN := 1\<rparr>) mma A B C 0 = Inr tile
           \<and> concat_partitions (partition_tile cfg mma A B C) [0..kPartitionsN cfg - 1] = Inr tile"
proof -
  let ?P = "kPartitionsN cfg"
  let ?cfg1 = "cfg\<lparr>kPartitionsN := 1\<rparr>"
  let ?col = "\<lambda>k. map (\<lambda>m. mma (A ! nat m) (B ! nat k) (C ! nat (m + k * kRow))) [0..kRow - 1]"
  note g = MmaIterations_partitions [OF grid N P]
  have c0: "0 \<le> kColumn" using grid MmaIterations_kColumn_pos [of cfg kRow kColumn] by simp
  have full: "partition_tile ?cfg1 mma A B C 0 = Inr (map ?col [0..N - 1])"
  proof -
    have "0 \<le> FragmentB_kElements cfg" using fragB P(3) by simp
    then have "1 * FragmentB_kElements cfg \<le> ?P * FragmentB_kElements cfg"
      using P(1) by (intro mult_right_mono) simp_all
    then have F: "FragmentB_kElements cfg < 2 ^ 31" using small by linarith
    have o: "n_off ?cfg1 0 = Inr (0 * (N div kPartitionsN ?cfg1))"
      by (rule n_off_partition [where N = N]) (use fragB P F in simp_all)
    have "partition_tile ?cfg1 mma A B C 0
            = Inr (map (\<lambda>n. map (\<lambda>m. mma (A ! nat m) (B ! nat (n + 0))
                                      (C ! nat (m + (n + 0) * kRow))) [0..kRow - 1])
                    [0..N - 1])"
      by (rule partition_tile_column_major [OF g(3)]) (use layout o lens in simp_all)
    then show ?thesis by simp
  qed
  have part: "partition_tile cfg mma A B C p = Inr (map (\<lambda>n. ?col (n + p * kColumn)) [0..kColumn - 1])"
    if "p \<in> set [0..?P - 1]" for p
  proof -
    have p: "0 \<le> p" "p < ?P" using that by simp_all
    have o: "n_off cfg p = Inr (p * kColumn)"
      unfolding g(1) by (rule n_off_partition [OF P(1,2) fragB _ small p]) (use P in simp)
    have "(p + 1) * kColumn \<le> ?P * kColumn" using p c0 by (intro mult_right_mono) simp_all
    then have le: "p * kColumn + kColumn \<le> N" using g(2) by (simp add: algebra_simps)
    have "kRow * (p * kColumn + kColumn) \<le> int (length C)"
    proof (cases "0 \<le> kRow")
      case True
      then have "kRow * (p * kColumn + kColumn) \<le> kRow * N" using le by (rule mult_left_mono [rotated])
      then show ?thesis using lens(3) by linarith
    next
      case False
      moreover have "0 \<le> p * kColumn + kColumn" using p c0 by simp
      ultimately have "kRow * (p * kColumn + kColumn) \<le> 0"
        by (simp add: mult_nonpos_nonneg)
      then show ?thesis by linarith
    qed
    then show ?thesis
      using partition_tile_column_major [OF grid layout o, of A B C mma] p c0 lens le
      by simp
  qed
  have 1: "concat_partitions (partition_tile cfg mma A B C) [0..?P - 1]
          = Inr (concat (map (\<lambda>p. map (\<lambda>n. ?col (n + p * kColumn)) [0..kColumn - 1]) [0..?P - 1]))"
    by (rule concat_partitions_ok) (rule part)
  have Pk: "int (nat ?P) = ?P" using P(1) by simp
  have "concat (map (\<lambda>p. map (\<lambda>n. ?col (n + p * kColumn)) [0..kColumn - 1]) [0..int (nat ?P) - 1])
               = map ?col [0..int (nat ?P) * kColumn - 1]"
    by (rule upto_blocks [OF c0])
  then have 2: "concat (map (\<lambda>p. map (\<lambda>n. ?col (n + p * kColumn)) [0..kColumn - 1]) [0..?P - 1])
               = map ?col [0..N - 1]"
    unfolding Pk g(2) .
  show ?thesis using full 1 2 by simp
qed

theorem partition_concatenation_witness:
  "MmaIterations \<lparr>Shape = \<lparr>kM = 32, kN = 32, kK = 8\<rparr>, ElementA = half_t, ElementB = half_t,
      OperatorShape = \<lparr>kM = 16, kN = 8, kK = 8\<rparr>, OperatorElementA = half_t,
      OperatorElementB = half_t, kPartitionsN = 2, AccumulatorsInRowMajor = False,
      FragmentB_kElements = 8, MmaOperandB_kElements = 2\<rparr> = Inr (2, 2)
   \<and> partition_tile \<lparr>Shape = \<lparr>kM = 32, kN = 32, kK = 8\<rparr>, ElementA = half_t, ElementB = half_t,
      OperatorShape = \<lparr>kM = 16, kN = 8, kK = 8\<rparr>, OperatorElementA = half_t,
      OperatorElementB = half_t, kPartitionsN = 1, AccumulatorsInRowMajor = False,
      FragmentB_kElements = 8, MmaOperandB_kElements = 2\<rparr>
        (\<lambda>a b c. a * b + c) [1, 2 :: int] [10, 20, 30, 40] [1, 2, 3, 4, 5, 6, 7, 8] 0
       = Inr [[11, 22], [23, 44], [35, 66], [47, 88]]
   \<and> concat_partitions
        (partition_tile \<lparr>Shape = \<lparr>kM = 32, kN = 32, kK = 8\<rparr>, ElementA = half_t, ElementB = half_t,
           OperatorShape = \<lparr>kM = 16, kN = 8, kK = 8\<rparr>, OperatorElementA = half_t,
           OperatorElementB = half_t, kPartitionsN = 2, AccumulatorsInRowMajor = False,
           FragmentB_kElements = 8, MmaOperandB_kElements = 2\<rparr>
          (\<lambda>a b c. a * b + c) [1, 2 :: int] [10, 20, 30, 40] [1, 2, 3, 4, 5, 6, 7, 8]) [0..2 - 1]
       = Inr [[11, 22], [23, 44], [35, 66], [47, 88]]"
proof -
  let ?cfg = "\<lparr>Shape = \<lparr>kM = 32, kN = 32, kK = 8\<rparr>, ElementA = half_t, ElementB = half_t,
      OperatorShape = \<lparr>kM = 16, kN = 8, kK = 8\<rparr>, OperatorElementA = half_t,
      OperatorElementB = half_t, kPartitionsN = 2, AccumulatorsInRowMajor = False,
      FragmentB_kElements = 8, MmaOperandB_kElements = 2\<rparr>"
  let ?mma = "\<lambda>a b c. a * b + (c :: int)"
  let ?A = "[1, 2 :: int]" and ?B = "[10, 20, 30, 40 :: int]" and ?C = "[1, 2, 3, 4, 5, 6, 7, 8 :: int]"
  have g: "MmaIterations ?cfg = Inr (2, 2)"
    by (simp add: MmaIterations_def signed_modulo_int_def signed_divide_int_def)
  have N: "(4 :: int) = kN (Shape ?cfg) sdiv kN (OperatorShape ?cfg)"
    by (simp add: signed_divide_int_def)
  have u: "[0 .. 1 :: int] = [0, 1]" "[0 .. 3 :: int] = [0, 1, 2, 3]" by (simp_all add: upto_rec1)
  have full: "partition_tile (?cfg\<lparr>kPartitionsN := 1\<rparr>) ?mma ?A ?B ?C 0
                = Inr [[11, 22], [23, 44], [35, 66], [47, 88]]"
    by (simp add: partition_tile_def acc_tile_def acc_index_def MmaTensorOp_call_def
          MmaIterations_def signed_modulo_int_def signed_divide_int_def n_off_def int_mul_def
          int_div_def in_int32_def serpentine_loop_def u mma_body_def mma_call_def
          in_bounds_def numeral_eq_Suc)
  obtain tile where t: "partition_tile (?cfg\<lparr>kPartitionsN := 1\<rparr>) ?mma ?A ?B ?C 0 = Inr tile"
      "concat_partitions (partition_tile ?cfg ?mma ?A ?B ?C) [0..kPartitionsN ?cfg - 1] = Inr tile"
    using partition_concatenation [of ?cfg 2 2 4 ?A ?B ?C ?mma, OF g _ N] by auto
  have "concat_partitions (partition_tile ?cfg ?mma ?A ?B ?C) [0..2 - 1]
          = Inr [[11, 22], [23, 44], [35, 66], [47, 88]]"
    using t full by simp
  then show ?thesis using g full by simp
qed

text \<open>
  The claim as first stated held for every \<open>P \<ge> 1\<close> and both layouts. With three operator
  columns and two partitions each run computes one column, so the concatenation has two
  columns where the single run has three. With row-major accumulators the offset is not
  used, so both partitions compute the first column.
\<close>

theorem partition_concatenation_counterexample:
  "concat_partitions
     (partition_tile \<lparr>Shape = \<lparr>kM = 16, kN = 24, kK = 8\<rparr>, ElementA = half_t, ElementB = half_t,
        OperatorShape = \<lparr>kM = 16, kN = 8, kK = 8\<rparr>, OperatorElementA = half_t,
        OperatorElementB = half_t, kPartitionsN = 2, AccumulatorsInRowMajor = False,
        FragmentB_kElements = 6, MmaOperandB_kElements = 2\<rparr>
       (\<lambda>a b c. a * b + c) [1 :: int] [10, 20, 30] [0, 0, 0]) [0..2 - 1]
     = Inr [[10], [20]]
   \<and> partition_tile \<lparr>Shape = \<lparr>kM = 16, kN = 24, kK = 8\<rparr>, ElementA = half_t, ElementB = half_t,
        OperatorShape = \<lparr>kM = 16, kN = 8, kK = 8\<rparr>, OperatorElementA = half_t,
        OperatorElementB = half_t, kPartitionsN = 1, AccumulatorsInRowMajor = False,
        FragmentB_kElements = 6, MmaOperandB_kElements = 2\<rparr>
       (\<lambda>a b c. a * b + c) [1 :: int] [10, 20, 30] [0, 0, 0] 0
     = Inr [[10], [20], [30]]
   \<and> concat_partitions
     (partition_tile \<lparr>Shape = \<lparr>kM = 16, kN = 16, kK = 8\<rparr>, ElementA = half_t, ElementB = half_t,
        OperatorShape = \<lparr>kM = 16, kN = 8, kK = 8\<rparr>, OperatorElementA = half_t,
        OperatorElementB = half_t, kPartitionsN = 2, AccumulatorsInRowMajor = True,
        FragmentB_kElements = 4, MmaOperandB_kElements = 2\<rparr>
       (\<lambda>a b c. a * b + c) [1 :: int] [10, 20] [0, 0]) [0..2 - 1]
     = Inr [[10], [10]]
   \<and> partition_tile \<lparr>Shape = \<lparr>kM = 16, kN = 16, kK = 8\<rparr>, ElementA = half_t, ElementB = half_t,
        OperatorShape = \<lparr>kM = 16, kN = 8, kK = 8\<rparr>, OperatorElementA = half_t,
        OperatorElementB = half_t, kPartitionsN = 1, AccumulatorsInRowMajor = True,
        FragmentB_kElements = 4, MmaOperandB_kElements = 2\<rparr>
       (\<lambda>a b c. a * b + c) [1 :: int] [10, 20] [0, 0] 0
     = Inr [[10], [20]]"
proof -
  have u: "[0 .. 1 :: int] = [0, 1]" "[0 .. 2 :: int] = [0, 1, 2]" by (simp_all add: upto_rec1)
  show ?thesis
    by (simp add: partition_tile_def acc_tile_def acc_index_def MmaTensorOp_call_def
          MmaIterations_def signed_modulo_int_def signed_divide_int_def n_off_def int_mul_def
          int_div_def in_int32_def serpentine_loop_def u upto_rec1 mma_body_def mma_call_def
          in_bounds_def numeral_eq_Suc)
qed

end
